theory Spec2Isabelle
  imports Main "HOL-Library.Monad_Syntax" "HOL-Library.AList" "HOL-Library.Sublist"
begin

section \<open>Pieces (BoardPieces.py)\<close>

text \<open>
  A Python call either returns a value or raises (IndexError, KeyError, ValueError,
  AttributeError). No exception is caught anywhere in the three source files, so a raise
  ends the whole call chain: every operation that can raise returns an \<open>option\<close>, with
  \<open>None\<close> for "an exception was raised" and \<open>Some v\<close> for "returned \<open>v\<close>".

  Colours are the strings \<open>'RED'\<close> and \<open>'BLUE'\<close>; the subclass of a piece decides its
  movement range and its name string. A coordinate is the tuple (row, column) with an
  integer row and a one-character column string.
\<close>

datatype color = RED | BLUE

datatype kind = GENERAL | GUARD | HORSE | ELEPHANT | CHARIOT | CANNON | SOLDIER

type_synonym coord = "int \<times> char"

record piece =
  kind :: kind
  color :: color
  current_pos :: coord

definition alphabet :: string where
  "alphabet = ''abcdefghi''"

fun index_of :: "'a list \<Rightarrow> 'a \<Rightarrow> nat option" where
  "index_of [] x = None"
| "index_of (y # ys) x = (if x = y then Some 0 else map_option Suc (index_of ys x))"

text \<open>\<open>self._alphabet.index(c)\<close>: the position of \<open>c\<close>, ValueError when it is absent.\<close>

definition alphabet_index :: "char \<Rightarrow> int option" where
  "alphabet_index c = map_option int (index_of alphabet c)"

text \<open>\<open>self._alphabet[i]\<close>: a negative index counts from the end, IndexError out of range.\<close>

definition alphabet_at :: "int \<Rightarrow> char option" where
  "alphabet_at i =
     (let n = int (length alphabet); j = (if i < 0 then n + i else i)
      in if 0 \<le> j \<and> j < n then Some (alphabet ! nat j) else None)"

text \<open>
  \<open>if cond: movement_range.append((row, self._alphabet[i]))\<close>: the index expression is
  evaluated only when the guard holds.
\<close>

definition append_at :: "bool \<Rightarrow> int \<Rightarrow> int \<Rightarrow> coord list \<Rightarrow> coord list option" where
  "append_at cond row i movement_range =
     (if cond then map_option (\<lambda>c. movement_range @ [(row, c)]) (alphabet_at i)
      else Some movement_range)"

definition append_if :: "bool \<Rightarrow> coord list \<Rightarrow> coord list \<Rightarrow> coord list" where
  "append_if cond xs movement_range = (if cond then movement_range @ xs else movement_range)"

definition color_str :: "color \<Rightarrow> string" where
  "color_str c = (case c of RED \<Rightarrow> ''RED'' | BLUE \<Rightarrow> ''BLUE'')"

definition kind_str :: "kind \<Rightarrow> string" where
  "kind_str k = (case k of GENERAL \<Rightarrow> ''GENERAL'' | GUARD \<Rightarrow> ''GUARD'' | HORSE \<Rightarrow> ''HORSE''
     | ELEPHANT \<Rightarrow> ''ELEPHANT'' | CHARIOT \<Rightarrow> ''CHARIOT'' | CANNON \<Rightarrow> ''CANNON''
     | SOLDIER \<Rightarrow> ''SOLDIER'')"

definition get_name :: "piece \<Rightarrow> string" where
  "get_name p = color_str (color p) @ '' '' @ kind_str (kind p)"

definition is_general :: "piece \<Rightarrow> bool" where
  "is_general p = (kind p = GENERAL)"

text \<open>
  \<open>General.get_movement_range\<close>. The two sideways appends index the alphabet without a
  guard: column index 8 raises IndexError, column index 0 wraps to \<open>'i'\<close>.
\<close>

definition general_get_movement_range :: "piece \<Rightarrow> coord list option" where
  "general_get_movement_range p =
     (let current = current_pos p; current_row = fst current; current_column = snd current in
      do {
        current_column_index \<leftarrow> alphabet_index current_column;
        let r1 = append_if (current_row - 1 > 0) [(current_row - 1, current_column)] [];
        let r2 = append_if (current_row + 1 \<le> 10) [(current_row + 1, current_column)] r1;
        r3 \<leftarrow> append_at True current_row (current_column_index + 1) r2;
        r4 \<leftarrow> append_at True current_row (current_column_index - 1) r3;
        let r5 = append_if (color p = BLUE \<and> (current = (8, CHR ''d'') \<or> current = (8, CHR ''f'')))
                   [(9, CHR ''e'')] r4;
        let r6 = append_if (color p = BLUE \<and> current = (9, CHR ''e''))
                   [(8, CHR ''d''), (8, CHR ''f''), (10, CHR ''d''), (10, CHR ''f'')] r5;
        let r7 = append_if (color p = BLUE \<and> (current = (10, CHR ''d'') \<or> current = (10, CHR ''f'')))
                   [(9, CHR ''e'')] r6;
        let r8 = append_if (color p = RED \<and> (current = (3, CHR ''d'') \<or> current = (3, CHR ''f'')))
                   [(2, CHR ''e'')] r7;
        let r9 = append_if (color p = RED \<and> current = (2, CHR ''e''))
                   [(1, CHR ''d''), (1, CHR ''f''), (3, CHR ''d''), (3, CHR ''f'')] r8;
        let r10 = append_if (color p = RED \<and> (current = (1, CHR ''d'') \<or> current = (1, CHR ''f'')))
                   [(2, CHR ''e'')] r9;
        Some r10
      })"

text \<open>\<open>Guard.get_movement_range\<close> repeats the body of the General's, line for line.\<close>

definition guard_get_movement_range :: "piece \<Rightarrow> coord list option" where
  "guard_get_movement_range p = general_get_movement_range p"

definition horse_get_movement_range :: "piece \<Rightarrow> coord list option" where
  "horse_get_movement_range p =
     (let current = current_pos p; current_row = fst current; current_column = snd current;
          last_index = int (length alphabet) - 1 in
      do {
        i \<leftarrow> alphabet_index current_column;
        r1 \<leftarrow> append_at (current_row + 2 \<le> 10 \<and> i + 1 \<le> last_index) (current_row + 2) (i + 1) [];
        r2 \<leftarrow> append_at (current_row + 2 \<le> 10 \<and> i - 1 \<ge> 0) (current_row + 2) (i - 1) r1;
        r3 \<leftarrow> append_at (current_row - 2 > 0 \<and> i + 1 \<le> last_index) (current_row - 2) (i + 1) r2;
        r4 \<leftarrow> append_at (current_row - 2 > 0 \<and> i - 1 \<ge> 0) (current_row - 2) (i - 1) r3;
        r5 \<leftarrow> append_at (i + 2 \<le> last_index \<and> current_row + 1 \<le> 10) (current_row + 1) (i + 2) r4;
        r6 \<leftarrow> append_at (i + 2 \<le> last_index \<and> current_row - 1 > 0) (current_row - 1) (i + 2) r5;
        r7 \<leftarrow> append_at (i - 2 \<ge> 0 \<and> current_row + 1 \<le> 10) (current_row + 1) (i - 2) r6;
        r8 \<leftarrow> append_at (i - 2 \<ge> 0 \<and> current_row - 1 > 0) (current_row - 1) (i - 2) r7;
        Some r8
      })"

definition elephant_get_movement_range :: "piece \<Rightarrow> coord list option" where
  "elephant_get_movement_range p =
     (let current = current_pos p; current_row = fst current; current_column = snd current;
          last_index = int (length alphabet) - 1 in
      do {
        i \<leftarrow> alphabet_index current_column;
        r1 \<leftarrow> append_at (current_row + 3 \<le> 10 \<and> i + 2 \<le> last_index) (current_row + 3) (i + 2) [];
        r2 \<leftarrow> append_at (current_row + 3 \<le> 10 \<and> i - 2 \<ge> 0) (current_row + 3) (i - 2) r1;
        r3 \<leftarrow> append_at (current_row - 3 > 0 \<and> i + 2 \<le> last_index) (current_row - 3) (i + 2) r2;
        r4 \<leftarrow> append_at (current_row - 3 > 0 \<and> i - 2 \<ge> 0) (current_row - 3) (i - 2) r3;
        r5 \<leftarrow> append_at (i + 3 \<le> last_index \<and> current_row + 2 \<le> 10) (current_row + 2) (i + 3) r4;
        r6 \<leftarrow> append_at (i + 3 \<le> last_index \<and> current_row - 2 > 0) (current_row - 2) (i + 3) r5;
        r7 \<leftarrow> append_at (i - 3 \<ge> 0 \<and> current_row + 2 \<le> 10) (current_row + 2) (i - 3) r6;
        r8 \<leftarrow> append_at (i - 3 \<ge> 0 \<and> current_row - 2 > 0) (current_row - 2) (i - 3) r7;
        Some r8
      })"

text \<open>\<open>Chariot.get_movement_range\<close>: it never indexes the alphabet, so it cannot raise.\<close>

definition chariot_get_movement_range :: "piece \<Rightarrow> coord list option" where
  "chariot_get_movement_range p =
     (let current = current_pos p; current_row = fst current; current_column = snd current;
          r1 = map (\<lambda>row. (row, current_column)) (filter (\<lambda>row. row \<noteq> current_row) [1..10]);
          r2 = r1 @ map (\<lambda>column. (current_row, column))
                      (filter (\<lambda>column. column \<noteq> snd current) alphabet);
          r3 = append_if (current = (8, CHR ''f'')) [(10, CHR ''d'')] r2;
          r4 = append_if (current = (8, CHR ''d'')) [(10, CHR ''f'')] r3;
          r5 = append_if (current = (10, CHR ''d'')) [(8, CHR ''f'')] r4;
          r6 = append_if (current = (10, CHR ''f'')) [(8, CHR ''d'')] r5;
          r7 = append_if (current = (3, CHR ''f'')) [(1, CHR ''d'')] r6;
          r8 = append_if (current = (3, CHR ''d'')) [(1, CHR ''f'')] r7;
          r9 = append_if (current = (1, CHR ''d'')) [(3, CHR ''f'')] r8;
          r10 = append_if (current = (1, CHR ''f'')) [(3, CHR ''d'')] r9
      in Some r10)"

text \<open>\<open>Cannon.get_movement_range\<close> repeats the body of the Chariot's, line for line.\<close>

definition cannon_get_movement_range :: "piece \<Rightarrow> coord list option" where
  "cannon_get_movement_range p = chariot_get_movement_range p"

text \<open>
  \<open>Soldier.get_movement_range\<close>: \<open>forward\<close>, \<open>left\<close> and \<open>right\<close> are a coordinate or
  Python's \<open>None\<close>; the final loop keeps the entries that are not \<open>None\<close>.
  \<open>_y_movement_direction\<close> is 1 for RED and -1 for any other colour.
\<close>

definition y_movement_direction :: "piece \<Rightarrow> int" where
  "y_movement_direction p = (if color p = RED then 1 else - 1)"

definition soldier_get_movement_range :: "piece \<Rightarrow> coord list option" where
  "soldier_get_movement_range p =
     (let current = current_pos p; current_row = fst current in
      do {
        current_column \<leftarrow> alphabet_index (snd current);
        let forward =
          (if color p = BLUE \<and> current_row = 1 then None
           else if color p = RED \<and> current_row = 10 then None
           else Some (current_row + y_movement_direction p, snd current));
        left \<leftarrow> (if current_column = 0 then Some None
                 else map_option (\<lambda>c. Some (current_row, c)) (alphabet_at (current_column - 1)));
        right \<leftarrow> (if current_column = 8 then Some None
                  else map_option (\<lambda>c. Some (current_row, c)) (alphabet_at (current_column + 1)));
        let d1 = [forward, left, right];
        let d2 = (if color p = RED \<and> (current = (8, CHR ''d'') \<or> current = (8, CHR ''f''))
                  then d1 @ [Some (9, CHR ''e'')] else d1);
        let d3 = (if color p = RED \<and> current = (9, CHR ''e'')
                  then d2 @ [Some (10, CHR ''d''), Some (10, CHR ''f'')] else d2);
        let d4 = (if color p = BLUE \<and> (current = (3, CHR ''d'') \<or> current = (3, CHR ''f''))
                  then d3 @ [Some (2, CHR ''e'')] else d3);
        let d5 = (if color p = BLUE \<and> current = (2, CHR ''e'')
                  then d4 @ [Some (1, CHR ''d''), Some (1, CHR ''f'')] else d4);
        Some (concat (map (\<lambda>direction. case direction of None \<Rightarrow> [] | Some c \<Rightarrow> [c]) d5))
      })"

text \<open>Dynamic dispatch on the subclass of the piece.\<close>

definition get_movement_range :: "piece \<Rightarrow> coord list option" where
  "get_movement_range p =
     (case kind p of
        GENERAL \<Rightarrow> general_get_movement_range p
      | GUARD \<Rightarrow> guard_get_movement_range p
      | HORSE \<Rightarrow> horse_get_movement_range p
      | ELEPHANT \<Rightarrow> elephant_get_movement_range p
      | CHARIOT \<Rightarrow> chariot_get_movement_range p
      | CANNON \<Rightarrow> cannon_get_movement_range p
      | SOLDIER \<Rightarrow> soldier_get_movement_range p)"

text \<open>The squares of the 10 x 9 board: rows 1 to 10, columns \<open>'a'\<close> to \<open>'i'\<close>.\<close>

definition on_board :: "coord \<Rightarrow> bool" where
  "on_board c = (1 \<le> fst c \<and> fst c \<le> 10 \<and> snd c \<in> set alphabet)"

section \<open>The board (Board.py)\<close>

text \<open>
  \<open>_board\<close> is a dictionary of rows, each row a dictionary from column letters to a piece
  or \<open>None\<close>. Python dictionaries keep insertion order, a lookup of a missing key raises
  KeyError and an assignment to a missing key appends it: an association list with
  \<open>map_of\<close> and \<open>AList.update\<close>. \<open>_general_locations\<close> is a dictionary with the two
  colours as keys.

  A piece object is referenced from the grid cell it stands on; the cell stores the fields
  of the object. The source compares pieces by object identity (\<open>piece != general\<close>); the
  model compares the stored fields, which is the same test whenever distinct objects
  differ in a field, as they do when each records the cell it stands on.
\<close>

type_synonym grid = "(int \<times> (char \<times> piece option) list) list"

record janggi_board =
  board :: grid
  general_locations :: "color \<Rightarrow> coord"
  checkmate :: bool

definition red_palace :: "coord list" where
  "red_palace = [(1, CHR ''d''), (1, CHR ''e''), (1, CHR ''f''),
                 (2, CHR ''d''), (2, CHR ''e''), (2, CHR ''f''),
                 (3, CHR ''d''), (3, CHR ''e''), (3, CHR ''f'')]"

definition blue_palace :: "coord list" where
  "blue_palace = [(8, CHR ''d''), (8, CHR ''e''), (8, CHR ''f''),
                  (9, CHR ''d''), (9, CHR ''e''), (9, CHR ''f''),
                  (10, CHR ''d''), (10, CHR ''e''), (10, CHR ''f'')]"

text \<open>\<open>self._board[coordinates[0]][coordinates[1]]\<close>: KeyError off the grid.\<close>

definition get_location_contents :: "janggi_board \<Rightarrow> coord \<Rightarrow> piece option option" where
  "get_location_contents b coordinates =
     do { row \<leftarrow> map_of (board b) (fst coordinates); map_of row (snd coordinates) }"

text \<open>The assignment \<open>self._board[r][c] = v\<close>: KeyError when the row key is missing.\<close>

definition set_location :: "janggi_board \<Rightarrow> coord \<Rightarrow> piece option \<Rightarrow> janggi_board option" where
  "set_location b coordinates v =
     do {
       row \<leftarrow> map_of (board b) (fst coordinates);
       Some (b\<lparr>board := AList.update (fst coordinates)
                          (AList.update (snd coordinates) v row) (board b)\<rparr>)
     }"

text \<open>
  \<open>for row in self._board.values(): for item in row.values()\<close> visits the cells in key
  order; \<open>grid_keys\<close> lists the coordinates in that order and \<open>grid_items\<close> their contents.
\<close>

definition grid_keys :: "janggi_board \<Rightarrow> coord list" where
  "grid_keys b = concat (map (\<lambda>(r, row). map (\<lambda>(c, item). (r, c)) row) (board b))"

definition grid_items :: "janggi_board \<Rightarrow> piece option list" where
  "grid_items b = concat (map (\<lambda>(r, row). map snd row) (board b))"

text \<open>\<open>"CANNON" in piece.get_name()\<close> and its siblings: a substring test on the name.\<close>

definition name_has :: "string \<Rightarrow> piece \<Rightarrow> bool" where
  "name_has s p = sublist s (get_name p)"

subsection \<open>Pieces in the path\<close>

text \<open>
  Slices of \<open>self._alphabet\<close> with Python's rules: a negative bound counts from the end and
  bounds are clamped. \<open>alphabet_slice a b\<close> is \<open>_alphabet[a:b]\<close>, \<open>alphabet_slice_down a b\<close>
  is \<open>_alphabet[a:b:-1]\<close>.
\<close>

definition slice_bound :: "int \<Rightarrow> int \<Rightarrow> int \<Rightarrow> int" where
  "slice_bound i lower upper =
     (let n = int (length alphabet); j = (if i < 0 then i + n else i)
      in if j < lower then lower else if j > upper then upper else j)"

definition alphabet_slice :: "int \<Rightarrow> int \<Rightarrow> string" where
  "alphabet_slice a b =
     map (\<lambda>k. alphabet ! nat k) [slice_bound a 0 9 .. slice_bound b 0 9 - 1]"

definition alphabet_slice_down :: "int \<Rightarrow> int \<Rightarrow> string" where
  "alphabet_slice_down a b =
     map (\<lambda>k. alphabet ! nat k) (rev [slice_bound b (- 1) 8 + 1 .. slice_bound a (- 1) 8])"

text \<open>The one-character strings \<open>move_from[1] < move_to[1]\<close> compare by code point.\<close>

definition char_less :: "char \<Rightarrow> char \<Rightarrow> bool" where
  "char_less c d = ((of_char c :: nat) < of_char d)"

text \<open>
  \<open>if self.get_location_contents(pos) is not None: found.append(....get_name())\<close>, for
  each square of a list of squares in turn.
\<close>

fun found_names :: "janggi_board \<Rightarrow> coord list \<Rightarrow> string list option" where
  "found_names b [] = Some []"
| "found_names b (pos # rest) =
     do {
       item \<leftarrow> get_location_contents b pos;
       more \<leftarrow> found_names b rest;
       Some ((case item of None \<Rightarrow> [] | Some p \<Rightarrow> [get_name p]) @ more)
     }"

definition path_found :: "janggi_board \<Rightarrow> coord \<Rightarrow> coord \<Rightarrow> string list option" where
  "path_found b move_from move_to =
     (if fst move_from = fst move_to then
        do {
          from_index \<leftarrow> alphabet_index (snd move_from);
          to_index \<leftarrow> alphabet_index (snd move_to);
          f1 \<leftarrow> (if char_less (snd move_from) (snd move_to)
                 then found_names b (map (\<lambda>column. (fst move_from, column))
                                        (alphabet_slice (from_index + 1) to_index))
                 else Some []);
          f2 \<leftarrow> (if char_less (snd move_to) (snd move_from)
                 then found_names b (map (\<lambda>column. (fst move_from, column))
                                        (alphabet_slice_down (from_index - 1) to_index))
                 else Some []);
          Some (f1 @ f2)
        }
      else if snd move_from = snd move_to then
        (let from_index = fst move_from; to_index = fst move_to in
         do {
           f1 \<leftarrow> (if from_index > to_index
                  then found_names b (map (\<lambda>row. (row, snd move_from))
                                         (rev [to_index + 1 .. from_index - 1]))
                  else Some []);
           f2 \<leftarrow> (if from_index < to_index
                  then found_names b (map (\<lambda>row. (row, snd move_from))
                                         [from_index + 1 .. to_index - 1])
                  else Some []);
           Some (f1 @ f2)
         })
      else if snd move_from = CHR ''d'' \<or> snd move_from = CHR ''f'' then
        (if fst move_from \<le> 3 then found_names b [(2, CHR ''e'')]
         else found_names b [(9, CHR ''e'')])
      else Some [])"

text \<open>
  \<open>pieces_in_orthogonal_path\<close> returns an integer when \<open>searching_for\<close> is \<open>'ANY'\<close>;
  otherwise \<open>True\<close> when a found name contains \<open>"CANNON"\<close> and, falling off the end of the
  function, \<open>None\<close>.
\<close>

datatype path_result = Count nat | PyTrue | PyNone

definition pieces_in_orthogonal_path ::
  "janggi_board \<Rightarrow> coord \<Rightarrow> coord \<Rightarrow> string \<Rightarrow> path_result option" where
  "pieces_in_orthogonal_path b move_from move_to searching_for =
     do {
       found \<leftarrow> path_found b move_from move_to;
       Some (if searching_for = ''ANY'' then Count (length found)
             else if \<exists>item_found \<in> set found. sublist ''CANNON'' item_found then PyTrue
             else PyNone)
     }"

text \<open>\<open>result != k\<close> and the truth value of a result, as Python evaluates them.\<close>

definition py_ne :: "path_result \<Rightarrow> nat \<Rightarrow> bool" where
  "py_ne r k = (case r of Count n \<Rightarrow> n \<noteq> k | PyTrue \<Rightarrow> k \<noteq> 1 | PyNone \<Rightarrow> True)"

definition truthy :: "path_result \<Rightarrow> bool" where
  "truthy r = (case r of Count n \<Rightarrow> n \<noteq> 0 | PyTrue \<Rightarrow> True | PyNone \<Rightarrow> False)"

text \<open>\<open>self.get_location_contents((row, self._alphabet[i]))\<close>.\<close>

definition contents_at :: "janggi_board \<Rightarrow> int \<Rightarrow> int \<Rightarrow> piece option option" where
  "contents_at b row i = do { c \<leftarrow> alphabet_at i; get_location_contents b (row, c) }"

definition is_elephant_path_blocked :: "janggi_board \<Rightarrow> piece \<Rightarrow> coord \<Rightarrow> bool option" where
  "is_elephant_path_blocked b elephant move_to =
     (let move_from = current_pos elephant in
      do {
        move_from_column_index \<leftarrow> alphabet_index (snd move_from);
        move_to_column_index \<leftarrow> alphabet_index (snd move_to);
        let north_south = fst move_to - fst move_from;
        let east_west = move_to_column_index - move_from_column_index;
        items_found \<leftarrow>
          (if \<bar>north_south\<bar> = 3 then
             (if north_south > 0 then
                do {
                  i1 \<leftarrow> get_location_contents b (fst move_from + 1, snd move_from);
                  i2 \<leftarrow> (if east_west > 0
                         then contents_at b (fst move_from + 2) (move_from_column_index + 1)
                         else contents_at b (fst move_from + 2) (move_from_column_index - 1));
                  Some [i1, i2]
                }
              else
                do {
                  i1 \<leftarrow> get_location_contents b (fst move_from - 1, snd move_from);
                  i2 \<leftarrow> (if east_west > 0
                         then contents_at b (fst move_from - 2) (move_from_column_index + 1)
                         else contents_at b (fst move_from - 2) (move_from_column_index - 1));
                  Some [i1, i2]
                })
           else
             (if east_west > 0 then
                do {
                  i1 \<leftarrow> contents_at b (fst move_from) (move_from_column_index + 1);
                  i2 \<leftarrow> (if north_south > 0
                         then contents_at b (fst move_from + 1) (move_from_column_index + 2)
                         else contents_at b (fst move_from - 1) (move_from_column_index + 2));
                  Some [i1, i2]
                }
              else
                do {
                  i1 \<leftarrow> contents_at b (fst move_from) (move_from_column_index - 1);
                  i2 \<leftarrow> (if north_south > 0
                         then contents_at b (fst move_from + 1) (move_from_column_index - 2)
                         else contents_at b (fst move_from - 1) (move_from_column_index - 2));
                  Some [i1, i2]
                }));
        Some (\<exists>item \<in> set items_found. item \<noteq> None)
      })"

definition is_horse_path_blocked :: "janggi_board \<Rightarrow> piece \<Rightarrow> coord \<Rightarrow> bool option" where
  "is_horse_path_blocked b horse move_to =
     (let move_from = current_pos horse in
      do {
        move_from_column_index \<leftarrow> alphabet_index (snd move_from);
        move_to_column_index \<leftarrow> alphabet_index (snd move_to);
        let north_south = fst move_to - fst move_from;
        let east_west = move_to_column_index - move_from_column_index;
        item_found \<leftarrow>
          (if \<bar>north_south\<bar> = 2 then
             (if north_south > 0
              then get_location_contents b (fst move_from + 1, snd move_from)
              else get_location_contents b (fst move_from - 1, snd move_from))
           else
             (if east_west > 0
              then contents_at b (fst move_from) (move_from_column_index + 1)
              else contents_at b (fst move_from) (move_from_column_index - 1)));
        Some (item_found \<noteq> None)
      })"

subsection \<open>The legality check\<close>

text \<open>
  The rules of \<open>pass_legality_check\<close> that follow the check filter (from "object trying to
  move belongs to other player" to the final \<open>return True\<close>). Each \<open>*_rejects\<close> function is
  one \<open>if\<close> block of the source that may \<open>return False\<close>.
\<close>

definition chariot_rejects :: "janggi_board \<Rightarrow> piece \<Rightarrow> coord \<Rightarrow> bool option" where
  "chariot_rejects b p move_to =
     (if name_has ''CHARIOT'' p then
        do {
          n \<leftarrow> pieces_in_orthogonal_path b (current_pos p) move_to ''ANY'';
          Some (py_ne n 0)
        }
      else Some False)"

definition cannon_rejects :: "janggi_board \<Rightarrow> piece \<Rightarrow> coord \<Rightarrow> bool option" where
  "cannon_rejects b p move_to =
     (if name_has ''CANNON'' p then
        do {
          n \<leftarrow> pieces_in_orthogonal_path b (current_pos p) move_to ''ANY'';
          if py_ne n 1 then Some True
          else do {
            c \<leftarrow> pieces_in_orthogonal_path b (current_pos p) move_to ''CANNON'';
            Some (truthy c)
          }
        }
      else Some False)"

definition elephant_rejects :: "janggi_board \<Rightarrow> piece \<Rightarrow> coord \<Rightarrow> bool option" where
  "elephant_rejects b p move_to =
     (if name_has ''ELEPHANT'' p then is_elephant_path_blocked b p move_to else Some False)"

definition horse_rejects :: "janggi_board \<Rightarrow> piece \<Rightarrow> coord \<Rightarrow> bool option" where
  "horse_rejects b p move_to =
     (if name_has ''HORSE'' p then is_horse_path_blocked b p move_to else Some False)"

definition legality_rules ::
  "janggi_board \<Rightarrow> coord \<Rightarrow> piece \<Rightarrow> color \<Rightarrow> coord list \<Rightarrow> bool option" where
  "legality_rules b move_to p current_turn movement_range =
     (let piece_color = color p in
      if piece_color \<noteq> current_turn then Some False
      else if move_to \<notin> set movement_range then Some False
      else do {
        target \<leftarrow> get_location_contents b move_to;
        if (case target of None \<Rightarrow> False | Some q \<Rightarrow> piece_color = color q) then Some False
        else if (case target of None \<Rightarrow> False
                 | Some q \<Rightarrow> name_has ''CANNON'' p \<and> name_has ''CANNON'' q) then Some False
        else if (name_has ''GENERAL'' p \<or> name_has ''GUARD'' p)
                \<and> move_to \<notin> set blue_palace \<and> move_to \<notin> set red_palace then Some False
        else do {
          r1 \<leftarrow> chariot_rejects b p move_to;
          if r1 then Some False
          else do {
            r2 \<leftarrow> cannon_rejects b p move_to;
            if r2 then Some False
            else do {
              r3 \<leftarrow> elephant_rejects b p move_to;
              if r3 then Some False
              else do {
                r4 \<leftarrow> horse_rejects b p move_to;
                if r4 then Some False else Some True
              }
            }
          }
        }
      })"

text \<open>
  \<open>pass_legality_check\<close> with \<open>hypothetical_movement=True\<close>: the movement range and the
  General of \<open>current_turn\<close> are read first (either may raise), the check filter is skipped,
  and the board is only read. \<open>get_general_check_status\<close> calls the function in this mode,
  and the real mode below calls \<open>get_general_check_status\<close>; the hypothetical mode is
  therefore defined first.
\<close>

definition pass_legality_check_hypothetical ::
  "janggi_board \<Rightarrow> coord \<Rightarrow> piece \<Rightarrow> color \<Rightarrow> bool option" where
  "pass_legality_check_hypothetical b move_to p current_turn =
     do {
       movement_range \<leftarrow> get_movement_range p;
       general \<leftarrow> get_location_contents b (general_locations b current_turn);
       legality_rules b move_to p current_turn movement_range
     }"

subsection \<open>Check status\<close>

text \<open>The innermost loop of \<open>get_general_check_status\<close>, over one piece's movement range.\<close>

fun threatens :: "janggi_board \<Rightarrow> coord \<Rightarrow> color \<Rightarrow> piece \<Rightarrow> coord list \<Rightarrow> bool option" where
  "threatens b general_location enemy_color item [] = Some False"
| "threatens b general_location enemy_color item (potential_move # rest) =
     (if potential_move = general_location then
        do {
          legal \<leftarrow> pass_legality_check_hypothetical b potential_move item enemy_color;
          if legal then Some True else threatens b general_location enemy_color item rest
        }
      else threatens b general_location enemy_color item rest)"

text \<open>The scan of the board; it returns \<open>True\<close> from inside the loops at the first hit.\<close>

fun check_scan ::
  "janggi_board \<Rightarrow> coord \<Rightarrow> color \<Rightarrow> color \<Rightarrow> piece option list \<Rightarrow> bool option" where
  "check_scan b general_location general_color enemy_color [] = Some False"
| "check_scan b general_location general_color enemy_color (None # rest) =
     check_scan b general_location general_color enemy_color rest"
| "check_scan b general_location general_color enemy_color (Some item # rest) =
     (if color item \<noteq> general_color then
        do {
          movement_range \<leftarrow> get_movement_range item;
          hit \<leftarrow> threatens b general_location enemy_color item movement_range;
          if hit then Some True
          else check_scan b general_location general_color enemy_color rest
        }
      else check_scan b general_location general_color enemy_color rest)"

definition get_general_check_status :: "janggi_board \<Rightarrow> color \<Rightarrow> bool option" where
  "get_general_check_status b general_color =
     (let general_location = general_locations b general_color;
          enemy_color = (if general_color = BLUE then RED else BLUE)
      in check_scan b general_location general_color enemy_color (grid_items b))"

text \<open>
  \<open>safe_general_move_check\<close>: the check zone is the concatenation of the raw movement
  ranges of the opposing pieces, with no legality filter.
\<close>

fun raw_check_zone :: "color \<Rightarrow> piece option list \<Rightarrow> coord list option" where
  "raw_check_zone opposing_color [] = Some []"
| "raw_check_zone opposing_color (None # rest) = raw_check_zone opposing_color rest"
| "raw_check_zone opposing_color (Some item # rest) =
     (if color item = opposing_color then
        do {
          movement_range \<leftarrow> get_movement_range item;
          more \<leftarrow> raw_check_zone opposing_color rest;
          Some (movement_range @ more)
        }
      else raw_check_zone opposing_color rest)"

definition safe_general_move_check :: "janggi_board \<Rightarrow> color \<Rightarrow> coord \<Rightarrow> bool option" where
  "safe_general_move_check b opposing_color move_to =
     do {
       check_zone \<leftarrow> raw_check_zone opposing_color (grid_items b);
       Some (move_to \<notin> set check_zone)
     }"

subsection \<open>Simulated moves\<close>

text \<open>
  \<open>test_save_general_movement\<close> writes two cells, asks for the check status, and writes
  the two cells back. The function returns the board along with its answer, so that the
  state in which it leaves the board is part of its result.
\<close>

definition test_save_general_movement ::
  "janggi_board \<Rightarrow> piece \<Rightarrow> coord \<Rightarrow> color \<Rightarrow> (bool \<times> janggi_board) option" where
  "test_save_general_movement b friendly_piece save_general_move general_color =
     do {
       save_item \<leftarrow> get_location_contents b save_general_move;
       let original_location = current_pos friendly_piece;
       b1 \<leftarrow> set_location b save_general_move (Some friendly_piece);
       b2 \<leftarrow> set_location b1 original_location None;
       general_still_checked \<leftarrow> get_general_check_status b2 general_color;
       b3 \<leftarrow> set_location b2 save_general_move save_item;
       b4 \<leftarrow> set_location b3 original_location (Some friendly_piece);
       Some (\<not> general_still_checked, b4)
     }"

text \<open>
  \<open>can_friendly_break_check\<close>. The loops run over the live dictionaries while
  \<open>test_save_general_movement\<close> writes to them, so each cell is read when the scan reaches
  it. The innermost loop runs over the movement range of one friendly piece.
\<close>

fun break_moves ::
  "janggi_board \<Rightarrow> piece \<Rightarrow> color \<Rightarrow> coord \<Rightarrow> coord list \<Rightarrow> (bool \<times> janggi_board) option" where
  "break_moves b item general_color general_location [] = Some (False, b)"
| "break_moves b item general_color general_location (potential_move # rest) =
     (if potential_move \<noteq> general_location then
        do {
          legal \<leftarrow> pass_legality_check_hypothetical b potential_move item general_color;
          if legal then
            do {
              (saved, b') \<leftarrow> test_save_general_movement b item potential_move general_color;
              if saved then Some (True, b')
              else break_moves b' item general_color general_location rest
            }
          else break_moves b item general_color general_location rest
        }
      else break_moves b item general_color general_location rest)"

fun break_scan ::
  "janggi_board \<Rightarrow> piece \<Rightarrow> coord list \<Rightarrow> (bool \<times> janggi_board) option" where
  "break_scan b general [] = Some (False, b)"
| "break_scan b general (cell # rest) =
     do {
       item \<leftarrow> get_location_contents b cell;
       (case item of
          None \<Rightarrow> break_scan b general rest
        | Some it \<Rightarrow>
            if it \<noteq> general \<and> color it = color general then
              do {
                movement_range \<leftarrow> get_movement_range it;
                (found, b') \<leftarrow> break_moves b it (color general) (current_pos general) movement_range;
                if found then Some (True, b') else break_scan b' general rest
              }
            else break_scan b general rest)
     }"

text \<open>
  The argument is what the caller read from the General's recorded square, which may be
  \<open>None\<close>; \<open>general.get_color()\<close> then raises AttributeError.
\<close>

definition can_friendly_break_check ::
  "janggi_board \<Rightarrow> piece option \<Rightarrow> (bool \<times> janggi_board) option" where
  "can_friendly_break_check b general =
     (case general of None \<Rightarrow> None | Some g \<Rightarrow> break_scan b g (grid_keys b))"

subsection \<open>Checkmate\<close>

text \<open>
  \<open>is_general_stuck\<close>: the check zone collects the locations of every opposing piece's
  movement range that pass the hypothetical legality check.
\<close>

fun legal_moves :: "janggi_board \<Rightarrow> piece \<Rightarrow> color \<Rightarrow> coord list \<Rightarrow> coord list option" where
  "legal_moves b item turn [] = Some []"
| "legal_moves b item turn (location # rest) =
     do {
       legal \<leftarrow> pass_legality_check_hypothetical b location item turn;
       more \<leftarrow> legal_moves b item turn rest;
       Some ((if legal then [location] else []) @ more)
     }"

fun stuck_check_zone :: "janggi_board \<Rightarrow> color \<Rightarrow> piece option list \<Rightarrow> coord list option" where
  "stuck_check_zone b opposing_color [] = Some []"
| "stuck_check_zone b opposing_color (None # rest) = stuck_check_zone b opposing_color rest"
| "stuck_check_zone b opposing_color (Some item # rest) =
     (if color item = opposing_color then
        do {
          movement_range \<leftarrow> get_movement_range item;
          zone \<leftarrow> legal_moves b item opposing_color movement_range;
          more \<leftarrow> stuck_check_zone b opposing_color rest;
          Some (zone @ more)
        }
      else stuck_check_zone b opposing_color rest)"

fun escape_options ::
  "janggi_board \<Rightarrow> piece \<Rightarrow> coord list \<Rightarrow> coord list \<Rightarrow> coord list option" where
  "escape_options b general check_zone [] = Some []"
| "escape_options b general check_zone (option # rest) =
     (if option \<notin> set check_zone then
        do {
          legal \<leftarrow> pass_legality_check_hypothetical b option general (color general);
          more \<leftarrow> escape_options b general check_zone rest;
          Some ((if legal then [option] else []) @ more)
        }
      else escape_options b general check_zone rest)"

definition is_general_stuck :: "janggi_board \<Rightarrow> piece option \<Rightarrow> color \<Rightarrow> bool option" where
  "is_general_stuck b general opposing_color =
     (case general of
        None \<Rightarrow> None
      | Some g \<Rightarrow>
          do {
            general_range \<leftarrow> get_movement_range g;
            check_zone \<leftarrow> stuck_check_zone b opposing_color (grid_items b);
            escapes \<leftarrow> escape_options b g check_zone general_range;
            Some (length escapes = 0)
          })"

definition get_checkmate_status :: "janggi_board \<Rightarrow> bool" where
  "get_checkmate_status b = checkmate b"

definition checkmate_side ::
  "janggi_board \<Rightarrow> piece option \<Rightarrow> color \<Rightarrow> janggi_board option" where
  "checkmate_side b general opposing_color =
     do {
       stuck \<leftarrow> is_general_stuck b general opposing_color;
       if stuck then
         do {
           (can_break, b') \<leftarrow> can_friendly_break_check b general;
           Some (if \<not> can_break then b'\<lparr>checkmate := True\<rparr> else b')
         }
       else Some b
     }"

definition update_checkmate_status :: "janggi_board \<Rightarrow> janggi_board option" where
  "update_checkmate_status b =
     do {
       red_general \<leftarrow> get_location_contents b (general_locations b RED);
       blue_general \<leftarrow> get_location_contents b (general_locations b BLUE);
       b1 \<leftarrow> checkmate_side b red_general BLUE;
       checkmate_side b1 blue_general RED
     }"

subsection \<open>The legality check of a real move, and the move\<close>

text \<open>
  The check filter at the head of \<open>pass_legality_check\<close>, entered when
  \<open>hypothetical_movement\<close> is false. It answers whether the function returns \<open>False\<close>
  here, and hands on the board as the simulations left it.
\<close>

definition check_filter ::
  "janggi_board \<Rightarrow> coord \<Rightarrow> piece \<Rightarrow> color \<Rightarrow> piece option \<Rightarrow> (bool \<times> janggi_board) option" where
  "check_filter b move_to p current_turn general =
     (let piece_color = color p;
          opposing_color = (if piece_color = BLUE then RED else BLUE) in
      do {
        in_check \<leftarrow> get_general_check_status b current_turn;
        if in_check \<and> Some p \<noteq> general then
          do {
            (can_break, b1) \<leftarrow> can_friendly_break_check b general;
            if \<not> can_break then Some (True, b1)
            else do {
              (saves, b2) \<leftarrow> test_save_general_movement b1 p move_to piece_color;
              Some (\<not> saves, b2)
            }
          }
        else
          do {
            in_check_again \<leftarrow> get_general_check_status b current_turn;
            if in_check_again then
              do {
                safe \<leftarrow> safe_general_move_check b opposing_color move_to;
                Some (\<not> safe, b)
              }
            else Some (False, b)
          }
      })"

definition pass_legality_check ::
  "janggi_board \<Rightarrow> coord \<Rightarrow> piece \<Rightarrow> color \<Rightarrow> bool \<Rightarrow> (bool \<times> janggi_board) option" where
  "pass_legality_check b move_to p current_turn hypothetical_movement =
     do {
       movement_range \<leftarrow> get_movement_range p;
       general \<leftarrow> get_location_contents b (general_locations b current_turn);
       (rejected, b1) \<leftarrow> (if \<not> hypothetical_movement
                          then check_filter b move_to p current_turn general
                          else Some (False, b));
       if rejected then Some (False, b1)
       else do {
         legal \<leftarrow> legality_rules b1 move_to p current_turn movement_range;
         Some (legal, b1)
       }
     }"

text \<open>
  \<open>board_piece.update_current_pos(move_to)\<close> changes the object; every cell that
  references the object shows the new position.
\<close>

definition update_current_pos :: "janggi_board \<Rightarrow> piece \<Rightarrow> coord \<Rightarrow> janggi_board" where
  "update_current_pos b p location =
     b\<lparr>board := map (\<lambda>(r, row). (r, map (\<lambda>(c, item).
           (c, if item = Some p then Some (p\<lparr>current_pos := location\<rparr>) else item)) row))
         (board b)\<rparr>"

definition move_piece ::
  "janggi_board \<Rightarrow> coord \<Rightarrow> coord \<Rightarrow> color \<Rightarrow> (bool \<times> janggi_board) option" where
  "move_piece b move_from move_to current_turn =
     do {
       board_piece \<leftarrow> get_location_contents b move_from;
       (case board_piece of
          None \<Rightarrow> Some (False, b)
        | Some p \<Rightarrow>
            do {
              (legal, b1) \<leftarrow> pass_legality_check b move_to p current_turn False;
              if \<not> legal then Some (False, b1)
              else do {
                b2 \<leftarrow> set_location b1 move_to (Some p);
                b3 \<leftarrow> set_location b2 move_from None;
                let b4 = update_current_pos b3 p move_to;
                Some (True, if is_general p
                            then b4\<lparr>general_locations := (general_locations b4)(current_turn := move_to)\<rparr>
                            else b4)
              }
            })
     }"

subsection \<open>The starting position\<close>

definition new_piece :: "kind \<Rightarrow> color \<Rightarrow> int \<Rightarrow> char \<Rightarrow> piece option" where
  "new_piece k c row column = Some \<lparr>kind = k, color = c, current_pos = (row, column)\<rparr>"

definition pieces_generator :: "piece option list" where
  "pieces_generator =
     [new_piece CHARIOT RED 1 CHR ''a'', new_piece ELEPHANT RED 1 CHR ''b'',
      new_piece HORSE RED 1 CHR ''c'', new_piece GUARD RED 1 CHR ''d'', None,
      new_piece GUARD RED 1 CHR ''f'', new_piece ELEPHANT RED 1 CHR ''g'',
      new_piece HORSE RED 1 CHR ''h'', new_piece CHARIOT RED 1 CHR ''i'',
      None, None, None, None, new_piece GENERAL RED 2 CHR ''e'', None, None, None, None,
      None, new_piece CANNON RED 3 CHR ''b'', None, None, None, None, None,
      new_piece CANNON RED 3 CHR ''h'', None,
      new_piece SOLDIER RED 4 CHR ''a'', None, new_piece SOLDIER RED 4 CHR ''c'', None,
      new_piece SOLDIER RED 4 CHR ''e'', None, new_piece SOLDIER RED 4 CHR ''g'', None,
      new_piece SOLDIER RED 4 CHR ''i'', None, None, None, None, None, None, None, None,
      None, None, None, None, None, None, None, None, None, None,
      new_piece SOLDIER BLUE 7 CHR ''a'', None, new_piece SOLDIER BLUE 7 CHR ''c'', None,
      new_piece SOLDIER BLUE 7 CHR ''e'', None, new_piece SOLDIER BLUE 7 CHR ''g'', None,
      new_piece SOLDIER BLUE 7 CHR ''i'', None, new_piece CANNON BLUE 8 CHR ''b'',
      None, None, None, None, None, new_piece CANNON BLUE 8 CHR ''h'', None,
      None, None, None, None, new_piece GENERAL BLUE 9 CHR ''e'', None, None, None, None,
      new_piece CHARIOT BLUE 10 CHR ''a'', new_piece ELEPHANT BLUE 10 CHR ''b'',
      new_piece HORSE BLUE 10 CHR ''c'', new_piece GUARD BLUE 10 CHR ''d'', None,
      new_piece GUARD BLUE 10 CHR ''f'', new_piece ELEPHANT BLUE 10 CHR ''g'',
      new_piece HORSE BLUE 10 CHR ''h'', new_piece CHARIOT BLUE 10 CHR ''i'']"

text \<open>
  \<open>JanggiBoard.__init__\<close>: an empty grid, then one \<open>next(new_pieces)\<close> per cell in key
  order (StopIteration when the generator is exhausted).
\<close>

definition empty_grid :: grid where
  "empty_grid = map (\<lambda>number. (number, map (\<lambda>letter. (letter, None)) ''abcdefghi'')) [1..10]"

fun place_pieces :: "janggi_board \<Rightarrow> coord list \<Rightarrow> piece option list \<Rightarrow> janggi_board option" where
  "place_pieces b [] new_pieces = Some b"
| "place_pieces b (cell # cells) [] = None"
| "place_pieces b (cell # cells) (p # new_pieces) =
     do { b' \<leftarrow> set_location b cell p; place_pieces b' cells new_pieces }"

definition new_board :: "janggi_board option" where
  "new_board =
     (let b = \<lparr>board = empty_grid,
               general_locations = (\<lambda>c. case c of BLUE \<Rightarrow> (9, CHR ''e'') | RED \<Rightarrow> (2, CHR ''e'')),
               checkmate = False\<rparr>
      in place_pieces b (grid_keys b) pieces_generator)"

section \<open>The game (Main.py)\<close>

datatype game_state = UNFINISHED | RED_WON | BLUE_WON

record janggi_game =
  current_board :: janggi_board
  game_state :: game_state
  current_turn :: color
  is_in_check :: "color \<Rightarrow> bool"

definition new_game :: "janggi_game option" where
  "new_game =
     do {
       b \<leftarrow> new_board;
       Some \<lparr>current_board = b, game_state = UNFINISHED, current_turn = BLUE,
             is_in_check = (\<lambda>c. False)\<rparr>
     }"

definition get_game_state :: "janggi_game \<Rightarrow> game_state" where
  "get_game_state g = game_state g"

definition get_current_turn :: "janggi_game \<Rightarrow> color" where
  "get_current_turn g = current_turn g"

definition declare_checkmate :: "janggi_game \<Rightarrow> color \<Rightarrow> janggi_game" where
  "declare_checkmate g loser =
     (if loser = RED then g\<lparr>game_state := BLUE_WON\<rparr> else g\<lparr>game_state := RED_WON\<rparr>)"

definition change_turn :: "janggi_game \<Rightarrow> janggi_game" where
  "change_turn g =
     (if current_turn g = BLUE then g\<lparr>current_turn := RED\<rparr> else g\<lparr>current_turn := BLUE\<rparr>)"

text \<open>One branch of \<open>update_check_status\<close>: the flags are set, then the checkmate test.\<close>

definition in_check_branch :: "janggi_game \<Rightarrow> color \<Rightarrow> janggi_game option" where
  "in_check_branch g loser =
     do {
       b \<leftarrow> update_checkmate_status (current_board g);
       let g1 = g\<lparr>is_in_check := (\<lambda>c. c = loser), current_board := b\<rparr>;
       let game_over = get_checkmate_status b;
       Some (if game_over then declare_checkmate g1 loser else g1)
     }"

definition update_check_status :: "janggi_game \<Rightarrow> janggi_game option" where
  "update_check_status g =
     do {
       red \<leftarrow> get_general_check_status (current_board g) RED;
       if red then in_check_branch g RED
       else do {
         blue \<leftarrow> get_general_check_status (current_board g) BLUE;
         if blue then in_check_branch g BLUE
         else Some (g\<lparr>is_in_check := (\<lambda>c. False)\<rparr>)
       }
     }"

subsection \<open>Coordinate strings\<close>

text \<open>
  Input strings are strings of the characters with code points 0 to 255. \<open>s[i]\<close> for a
  non-negative \<open>i\<close> raises IndexError past the end; \<open>str.lower\<close> maps \<open>'A'\<close>..\<open>'Z'\<close> to
  \<open>'a'\<close>..\<open>'z'\<close> and the capital letters at code points 192 to 222 (215, the multiplication
  sign, apart) to the letters 32 code points above them.
\<close>

definition str_at :: "string \<Rightarrow> nat \<Rightarrow> char option" where
  "str_at s i = (if i < length s then Some (s ! i) else None)"

definition lower :: "char \<Rightarrow> char" where
  "lower c =
     (let n = (of_char c :: nat) in
      if (65 \<le> n \<and> n \<le> 90) \<or> (192 \<le> n \<and> n \<le> 222 \<and> n \<noteq> 215) then char_of (n + 32) else c)"

text \<open>
  \<open>int(s)\<close> on a string: surrounding whitespace is skipped, one sign is allowed, and the
  digits may be separated by single underscores; anything else raises ValueError. The
  whitespace \<open>int\<close> skips is tab, line feed, vertical tab, form feed, carriage return and
  space (code points 9 to 13 and 32) and, of the code points above 127, next line (133)
  and no-break space (160); the separators at code points 28 to 31 are not skipped.
\<close>

definition is_space :: "char \<Rightarrow> bool" where
  "is_space c = (let n = (of_char c :: nat) in (9 \<le> n \<and> n \<le> 13) \<or> n = 32 \<or> n = 133 \<or> n = 160)"

definition is_digit :: "char \<Rightarrow> bool" where
  "is_digit c = (let n = (of_char c :: nat) in 48 \<le> n \<and> n \<le> 57)"

definition digit_val :: "char \<Rightarrow> int" where
  "digit_val c = int (of_char c) - 48"

fun digits_value :: "int \<Rightarrow> bool \<Rightarrow> string \<Rightarrow> int option" where
  "digits_value acc after_digit [] = (if after_digit then Some acc else None)"
| "digits_value acc after_digit (c # cs) =
     (if is_digit c then digits_value (10 * acc + digit_val c) True cs
      else if c = CHR ''_'' \<and> after_digit \<and> cs \<noteq> [] \<and> is_digit (hd cs)
        then digits_value acc False cs
      else None)"

definition py_int :: "string \<Rightarrow> int option" where
  "py_int s =
     (let t = rev (dropWhile is_space (rev (dropWhile is_space s))) in
      case t of
        [] \<Rightarrow> None
      | c # cs \<Rightarrow>
          if c = CHR ''-'' then map_option uminus (digits_value 0 False cs)
          else if c = CHR ''+'' then digits_value 0 False cs
          else digits_value 0 False t)"

definition parse_coordinate :: "string \<Rightarrow> coord option" where
  "parse_coordinate string_location =
     do {
       column \<leftarrow> str_at string_location 0;
       row \<leftarrow> py_int (drop 1 string_location);
       Some (row, column)
     }"

subsection \<open>make_move\<close>

text \<open>
  The input validation of \<open>make_move\<close>: \<open>Some True\<close> when one of its \<open>return False\<close>
  statements is reached, \<open>None\<close> when \<open>move_from[0]\<close> or \<open>move_to[0]\<close> raises IndexError.
\<close>

definition input_rejected :: "string \<Rightarrow> string \<Rightarrow> bool option" where
  "input_rejected move_from move_to =
     do {
       f \<leftarrow> str_at move_from 0;
       if lower f \<notin> set ''abcdefghi'' then Some True
       else do {
         t \<leftarrow> str_at move_to 0;
         if lower t \<notin> set ''abcdefghi'' then Some True
         else if length move_from < 2 \<or> length move_to < 2 then Some True
         else if length move_from = 3
           then Some (move_from ! 1 \<noteq> CHR ''1'' \<or> move_from ! 2 \<noteq> CHR ''0'')
         else if length move_to = 3
           then Some (move_to ! 1 \<noteq> CHR ''1'' \<or> move_to ! 2 \<noteq> CHR ''0'')
         else Some False
       }
     }"

definition make_move :: "janggi_game \<Rightarrow> string \<Rightarrow> string \<Rightarrow> (bool \<times> janggi_game) option" where
  "make_move g move_from move_to =
     do {
       rejected \<leftarrow> input_rejected move_from move_to;
       if rejected then Some (False, g)
       else if get_game_state g \<noteq> UNFINISHED then Some (False, g)
       else if move_from = move_to \<and> is_in_check g (current_turn g) = False
         then Some (True, change_turn g)
       else do {
         parsed_move_from \<leftarrow> parse_coordinate move_from;
         parsed_move_to \<leftarrow> parse_coordinate move_to;
         (move_made, b) \<leftarrow> move_piece (current_board g) parsed_move_from parsed_move_to
                             (current_turn g);
         let g1 = g\<lparr>current_board := b\<rparr>;
         if move_made then
           do { g2 \<leftarrow> update_check_status (change_turn g1); Some (True, g2) }
         else Some (False, g1)
       }
     }"

section \<open>Well-formed boards\<close>

text \<open>
  The properties of a board that the constructor establishes. Four of them are kept by
  every call of \<open>move_piece\<close>, accepted or not, and are what the theorems below take as
  "a board state": the grid has the ten row keys and the nine column keys of the
  constructor (\<open>grid_ok\<close>); every piece on the grid records a square of the board, a General
  or Guard one inside a palace (\<open>pieces_ok\<close>); every piece stands on the square it records
  (\<open>in_sync\<close>); and the squares recorded in \<open>_general_locations\<close> are squares of the board
  (\<open>generals_on_board\<close>). The fifth, that the square recorded for each colour holds that
  colour's General (\<open>general_at\<close>), holds until a General is taken; the five together make
  a board \<open>well_formed\<close>.
\<close>

definition grid_ok :: "janggi_board \<Rightarrow> bool" where
  "grid_ok b = (map fst (board b) = [1..10] \<and> list_all (\<lambda>(r, row). map fst row = alphabet) (board b))"

definition piece_ok :: "piece \<Rightarrow> bool" where
  "piece_ok p =
     (on_board (current_pos p) \<and>
      (if kind p = GENERAL \<or> kind p = GUARD
       then current_pos p \<in> set red_palace \<or> current_pos p \<in> set blue_palace else True))"

definition pieces_ok :: "janggi_board \<Rightarrow> bool" where
  "pieces_ok b = list_all (\<lambda>item. case item of None \<Rightarrow> True | Some p \<Rightarrow> piece_ok p) (grid_items b)"

definition generals_on_board :: "janggi_board \<Rightarrow> bool" where
  "generals_on_board b = (on_board (general_locations b RED) \<and> on_board (general_locations b BLUE))"

definition stands_on :: "janggi_board \<Rightarrow> piece \<Rightarrow> bool" where
  "stands_on b p = (get_location_contents b (current_pos p) = Some (Some p))"

definition in_sync :: "janggi_board \<Rightarrow> bool" where
  "in_sync b =
     list_all (\<lambda>cell. case get_location_contents b cell of
                        Some (Some p) \<Rightarrow> current_pos p = cell
                      | _ \<Rightarrow> True) (grid_keys b)"

definition general_at :: "janggi_board \<Rightarrow> color \<Rightarrow> bool" where
  "general_at b c =
     (case get_location_contents b (general_locations b c) of
        Some (Some g) \<Rightarrow> kind g = GENERAL \<and> color g = c
      | _ \<Rightarrow> False)"

definition well_formed :: "janggi_board \<Rightarrow> bool" where
  "well_formed b =
     (grid_ok b \<and> pieces_ok b \<and> in_sync b \<and> general_at b RED \<and> general_at b BLUE)"

text \<open>The four properties that every call of \<open>move_piece\<close> and \<open>make_move\<close> keeps.\<close>

definition board_ok :: "janggi_board \<Rightarrow> bool" where
  "board_ok b = (grid_ok b \<and> pieces_ok b \<and> generals_on_board b \<and> in_sync b)"

text \<open>
  The shape of a Horse or Elephant jump: the square \<open>x\<close> lies \<open>long\<close> rows and \<open>short\<close>
  columns, or \<open>short\<close> rows and \<open>long\<close> columns, away from row \<open>row\<close> and column index
  \<open>i\<close>, on a row of the board.
\<close>

definition jump_from :: "int \<Rightarrow> int \<Rightarrow> int \<Rightarrow> int \<Rightarrow> coord \<Rightarrow> bool" where
  "jump_from long short row i x =
     (case alphabet_index (snd x) of
        None \<Rightarrow> False
      | Some j \<Rightarrow>
          0 < fst x \<and> fst x \<le> 10 \<and>
          ((\<bar>fst x - row\<bar> = long \<and> \<bar>j - i\<bar> = short) \<or> (\<bar>fst x - row\<bar> = short \<and> \<bar>j - i\<bar> = long)))"


section \<open>Threat zones\<close>

text \<open>
  A square is legally threatened by a colour when it lies in the movement range of one of
  that colour's pieces on the grid and the hypothetical legality check accepts the move
  of that piece to it: the test under which \<open>is_general_stuck\<close> adds a location to its
  check zone.
\<close>

definition legally_threatened :: "janggi_board \<Rightarrow> color \<Rightarrow> coord \<Rightarrow> bool" where
  "legally_threatened b opposing_color location =
     (\<exists>item \<in> set (grid_items b).
        case item of
          None \<Rightarrow> False
        | Some it \<Rightarrow>
            color it = opposing_color
            \<and> (case get_movement_range it of None \<Rightarrow> False | Some r \<Rightarrow> location \<in> set r)
            \<and> pass_legality_check_hypothetical b location it opposing_color = Some True)"

text \<open>
  The characterisation of \<open>is_general_stuck\<close> in the words of the specification: every
  destination of the General's range is in the unfiltered threat zone of the enemy (the
  raw movement ranges of its pieces, the check zone of \<open>safe_general_move_check\<close>) or
  fails the hypothetical legality check.
\<close>

definition stuck_as_specified :: "janggi_board \<Rightarrow> piece \<Rightarrow> color \<Rightarrow> bool" where
  "stuck_as_specified b general opposing_color =
     (case (get_movement_range general, raw_check_zone opposing_color (grid_items b)) of
        (Some general_range, Some zone) \<Rightarrow>
          list_all (\<lambda>option. option \<in> set zone
                      \<or> pass_legality_check_hypothetical b option general (color general) = Some False)
            general_range
      | _ \<Rightarrow> False)"

text \<open>
  The General locations track the Generals: every General on the grid stands on the
  square recorded for its colour.
\<close>

definition generals_tracked :: "janggi_board \<Rightarrow> bool" where
  "generals_tracked b =
     list_all (\<lambda>cell. case get_location_contents b cell of
                        Some (Some p) \<Rightarrow>
                          (if kind p = GENERAL then general_locations b (color p) = cell else True)
                      | _ \<Rightarrow> True) (grid_keys b)"

section \<open>Sequences of calls and set-up positions\<close>

text \<open>
  A game is played by calling \<open>make_move\<close> again and again on the same object; \<open>play\<close> runs a
  list of (from, to) calls in order and returns the game after the last one, whatever the
  calls answered. \<open>play_from_start\<close> does so on a freshly constructed game.
\<close>

fun play :: "janggi_game \<Rightarrow> (string \<times> string) list \<Rightarrow> janggi_game option" where
  "play g [] = Some g"
| "play g ((move_from, move_to) # calls) =
     do { (move_made, g') \<leftarrow> make_move g move_from move_to; play g' calls }"

definition play_from_start :: "(string \<times> string) list \<Rightarrow> janggi_game option" where
  "play_from_start calls = do { g \<leftarrow> new_game; play g calls }"

text \<open>
  A board is also driven directly, by calling \<open>move_piece\<close> with the colour that moves.
  \<open>accepted_moves\<close> runs a list of (from, to, colour) calls in order and returns the board
  after the last one when every call returned True; \<open>answers\<close> collects what the calls of
  \<open>make_move\<close> in a game returned.
\<close>

fun accepted_moves :: "janggi_board \<Rightarrow> (coord \<times> coord \<times> color) list \<Rightarrow> janggi_board option" where
  "accepted_moves b [] = Some b"
| "accepted_moves b ((move_from, move_to, turn) # calls) =
     do {
       (move_made, b') \<leftarrow> move_piece b move_from move_to turn;
       if move_made then accepted_moves b' calls else None
     }"

fun answers :: "janggi_game \<Rightarrow> (string \<times> string) list \<Rightarrow> bool list option" where
  "answers g [] = Some []"
| "answers g ((move_from, move_to) # calls) =
     do {
       (move_made, g') \<leftarrow> make_move g move_from move_to;
       rest \<leftarrow> answers g' calls;
       Some (move_made # rest)
     }"

text \<open>
  A board set up by hand: the empty grid of the constructor with the given pieces written
  to the squares they record, and the given General locations.
\<close>

fun put_pieces :: "janggi_board \<Rightarrow> piece list \<Rightarrow> janggi_board option" where
  "put_pieces b [] = Some b"
| "put_pieces b (p # ps) = do { b' \<leftarrow> set_location b (current_pos p) (Some p); put_pieces b' ps }"

definition board_with :: "coord \<Rightarrow> coord \<Rightarrow> piece list \<Rightarrow> janggi_board option" where
  "board_with red_general blue_general ps =
     put_pieces \<lparr>board = empty_grid,
                 general_locations = (\<lambda>c. case c of BLUE \<Rightarrow> blue_general | RED \<Rightarrow> red_general),
                 checkmate = False\<rparr> ps"

text \<open>
  The coordinate strings of the interface: one column letter \<open>'a'\<close>..\<open>'i'\<close> followed by
  the row number 1 to 10 in decimal.
\<close>

definition row_strings :: "string list" where
  "row_strings = map (\<lambda>digit. [digit]) ''123456789'' @ [''10'']"

definition coordinate_strings :: "string list" where
  "coordinate_strings = concat (map (\<lambda>column. map (\<lambda>row. column # row) row_strings) alphabet)"

section \<open>Example positions\<close>

text \<open>
  BLUE's General on (10, 'e') is attacked down the e-file by a RED Chariot; its three
  steps are covered by that Chariot, by the Chariot on (10, 'a') and by the Soldier on
  (9, 'f'); BLUE has no other piece.
\<close>

definition mate_position :: "janggi_board option" where
  "mate_position = board_with (2, CHR ''e'') (10, CHR ''e'')
     [\<lparr>kind = GENERAL, color = RED, current_pos = (2, CHR ''e'')\<rparr>,
      \<lparr>kind = CHARIOT, color = RED, current_pos = (5, CHR ''e'')\<rparr>,
      \<lparr>kind = CHARIOT, color = RED, current_pos = (10, CHR ''a'')\<rparr>,
      \<lparr>kind = SOLDIER, color = RED, current_pos = (9, CHR ''f'')\<rparr>,
      \<lparr>kind = GENERAL, color = BLUE, current_pos = (10, CHR ''e'')\<rparr>]"

text \<open>
  BLUE's General on (9, 'e') with RED Chariots on (8, 'a') and (10, 'a'), each shut in by
  a RED Soldier next to it, and a RED Cannon on (9, 'a') with nothing to jump over on its
  way to (9, 'd').
\<close>

definition blocked_rooks_position :: "janggi_board option" where
  "blocked_rooks_position = board_with (2, CHR ''e'') (9, CHR ''e'')
     [\<lparr>kind = GENERAL, color = RED, current_pos = (2, CHR ''e'')\<rparr>,
      \<lparr>kind = CHARIOT, color = RED, current_pos = (8, CHR ''a'')\<rparr>,
      \<lparr>kind = SOLDIER, color = RED, current_pos = (8, CHR ''b'')\<rparr>,
      \<lparr>kind = CHARIOT, color = RED, current_pos = (10, CHR ''a'')\<rparr>,
      \<lparr>kind = SOLDIER, color = RED, current_pos = (10, CHR ''b'')\<rparr>,
      \<lparr>kind = CANNON, color = RED, current_pos = (9, CHR ''a'')\<rparr>,
      \<lparr>kind = GENERAL, color = BLUE, current_pos = (9, CHR ''e'')\<rparr>]"

text \<open>
  The calls of a game in which BLUE passes twice while RED brings a Cannon to (3, 'e')
  behind its own Soldier, and BLUE then steps its e-file Soldier aside.
\<close>

definition exposing_game :: "(string \<times> string) list" where
  "exposing_game = [(''e9'', ''e9''), (''c1'', ''d3''), (''e9'', ''e9''), (''b3'', ''e3'')]"

text \<open>
  The calls of a game in which BLUE first steps its e-file Soldier aside and RED then
  brings a Cannon to (3, 'e'): BLUE is to move and its General is attacked.
\<close>

definition checking_game :: "(string \<times> string) list" where
  "checking_game = [(''e7'', ''d7''), (''c1'', ''d3''), (''e9'', ''e9''), (''b3'', ''e3'')]"

text \<open>
  The calls of a game in which BLUE brings its right-hand Chariot to (9, 'f') and steps its
  e-file Soldier aside, while RED brings a Cannon to (3, 'e') behind its own Soldier and
  then steps its General from (2, 'e') to (2, 'f'), into the file of that Chariot: both
  Generals are attacked and BLUE is to move.
\<close>

definition double_check_game :: "(string \<times> string) list" where
  "double_check_game =
     [(''i10'', ''i9''), (''c1'', ''d3''), (''i9'', ''f9''), (''b3'', ''e3''),
      (''e7'', ''d7''), (''e2'', ''f2'')]"



text \<open>
  The calls of \<open>exposing_game\<close> followed by BLUE's step of its e-file Soldier to (7, 'd'):
  RED is to move and its Cannon on (3, 'e') attacks BLUE's General over RED's Soldier.
\<close>

definition exposed_game :: "(string \<times> string) list" where
  "exposed_game = exposing_game @ [(''e7'', ''d7'')]"

lemma set_alphabet: "set alphabet = {CHR ''a'', CHR ''b'', CHR ''c'', CHR ''d'', CHR ''e'', CHR ''f'', CHR ''g'', CHR ''h'', CHR ''i''}"
  by (auto simp: alphabet_def)

lemma alphabet_index_Some:
  "c \<in> set alphabet \<Longrightarrow> \<exists>i. alphabet_index c = Some i \<and> 0 \<le> i \<and> i \<le> 8"
  by (auto simp: alphabet_def alphabet_index_def)

lemma alphabet_index_range:
  "alphabet_index c = Some i \<Longrightarrow> 0 \<le> i \<and> i \<le> 8 \<and> c \<in> set alphabet \<and> alphabet_at i = Some c"
  by (auto simp: alphabet_def alphabet_index_def alphabet_at_def split: if_splits)

lemma alphabet_at_Some:
  "- 9 \<le> i \<Longrightarrow> i \<le> 8 \<Longrightarrow> \<exists>c. alphabet_at i = Some c \<and> c \<in> set alphabet"
  by (auto simp: alphabet_at_def alphabet_def Let_def nth_Cons' )

lemma append_at_bind_ok:
  assumes "\<forall>c\<in>set acc. on_board c"
    and "cond \<Longrightarrow> 1 \<le> row \<and> row \<le> 10 \<and> - 9 \<le> i \<and> i \<le> 8"
    and "\<And>r. \<forall>c\<in>set r. on_board c \<Longrightarrow> \<exists>res. f r = Some res \<and> (\<forall>c\<in>set res. on_board c)"
  shows "\<exists>res. (append_at cond row i acc \<bind> f) = Some res \<and> (\<forall>c\<in>set res. on_board c)"
proof (cases cond)
  case True
  with assms(2) obtain c where c: "alphabet_at i = Some c" "c \<in> set alphabet"
    using alphabet_at_Some by blast
  from True assms(2) have "1 \<le> row" "row \<le> 10" by auto
  with c assms(1) have "\<forall>x\<in>set (acc @ [(row, c)]). on_board x"
    by (auto simp: on_board_def)
  from assms(3)[OF this] True c show ?thesis by (simp add: append_at_def)
next
  case False
  with assms(3)[OF assms(1)] show ?thesis by (simp add: append_at_def)
qed

lemma append_at_ok:
  assumes "\<forall>c\<in>set acc. on_board c"
    and "cond \<Longrightarrow> 1 \<le> row \<and> row \<le> 10 \<and> - 9 \<le> i \<and> i \<le> 8"
  shows "\<exists>res. append_at cond row i acc = Some res \<and> (\<forall>c\<in>set res. on_board c)"
  using append_at_bind_ok[where f = Some, OF assms] by simp

lemma append_if_ok:
  "\<forall>c\<in>set acc. on_board c \<Longrightarrow> (cond \<Longrightarrow> \<forall>c\<in>set xs. on_board c) \<Longrightarrow>
   \<forall>c\<in>set (append_if cond xs acc). on_board c"
  by (auto simp: append_if_def)

lemma on_board_col: "c \<in> set alphabet \<Longrightarrow> on_board (r, c) = (1 \<le> r \<and> r \<le> 10)"
  by (simp add: on_board_def)

lemma palace_cols: "CHR ''d'' \<in> set alphabet" "CHR ''e'' \<in> set alphabet" "CHR ''f'' \<in> set alphabet"
  by (simp_all add: alphabet_def)

lemma horse_range_ok:
  assumes "on_board (current_pos p)"
  shows "\<exists>r. horse_get_movement_range p = Some r \<and> (\<forall>c\<in>set r. on_board c)"
proof -
  obtain row col where pos: "current_pos p = (row, col)" by (cases "current_pos p")
  from assms pos have row: "1 \<le> row" "row \<le> 10" and col: "col \<in> set alphabet"
    by (auto simp: on_board_def)
  from col obtain i where i: "alphabet_index col = Some i" "0 \<le> i" "i \<le> 8"
    using alphabet_index_Some by blast
  have len: "int (length alphabet) - 1 = 8" by (simp add: alphabet_def)
  show ?thesis
    unfolding horse_get_movement_range_def Let_def pos fst_conv snd_conv len
    using row i
    apply (simp del: bind_assoc)
    apply (intro append_at_bind_ok append_at_ok)
    apply simp_all
    done
qed

lemma elephant_range_ok:
  assumes "on_board (current_pos p)"
  shows "\<exists>r. elephant_get_movement_range p = Some r \<and> (\<forall>c\<in>set r. on_board c)"
proof -
  obtain row col where pos: "current_pos p = (row, col)" by (cases "current_pos p")
  from assms pos have row: "1 \<le> row" "row \<le> 10" and col: "col \<in> set alphabet"
    by (auto simp: on_board_def)
  from col obtain i where i: "alphabet_index col = Some i" "0 \<le> i" "i \<le> 8"
    using alphabet_index_Some by blast
  have len: "int (length alphabet) - 1 = 8" by (simp add: alphabet_def)
  show ?thesis
    unfolding elephant_get_movement_range_def Let_def pos fst_conv snd_conv len
    using row i
    apply (simp del: bind_assoc)
    apply (intro append_at_bind_ok append_at_ok)
    apply simp_all
    done
qed



lemma chariot_range_ok:
  assumes "on_board (current_pos p)"
  shows "\<exists>r. chariot_get_movement_range p = Some r \<and> (\<forall>c\<in>set r. on_board c)"
proof -
  obtain row col where pos: "current_pos p = (row, col)" by (cases "current_pos p")
  from assms pos have row: "1 \<le> row" "row \<le> 10" and col: "col \<in> set alphabet"
    by (auto simp: on_board_def)
  have base: "\<forall>c\<in>set (map (\<lambda>r. (r, col)) (filter (\<lambda>r. r \<noteq> row) [1..10]) @
                 map (\<lambda>column. (row, column)) (filter (\<lambda>column. column \<noteq> col) alphabet)). on_board c"
    using row col by (auto simp: on_board_col)
  show ?thesis
    unfolding chariot_get_movement_range_def Let_def pos fst_conv snd_conv
    apply simp
    apply (intro append_if_ok base)
    apply (simp_all add: on_board_col palace_cols)
    done
qed

lemma general_range_ok:
  assumes "on_board (current_pos p)" "snd (current_pos p) \<noteq> CHR ''i''"
  shows "\<exists>r. general_get_movement_range p = Some r \<and> (\<forall>c\<in>set r. on_board c)"
proof -
  obtain row col where pos: "current_pos p = (row, col)" by (cases "current_pos p")
  from assms pos have row: "1 \<le> row" "row \<le> 10" and col: "col \<in> set alphabet" "col \<noteq> CHR ''i''"
    by (auto simp: on_board_def)
  from col obtain i where i: "alphabet_index col = Some i" "0 \<le> i" "i \<le> 7"
    by (auto simp: alphabet_def alphabet_index_def)
  have base: "\<forall>c\<in>set (append_if (row + 1 \<le> 10) [(row + 1, col)]
                    (append_if (row - 1 > 0) [(row - 1, col)] [])). on_board c"
    using row col by (auto simp: append_if_def on_board_col)
  show ?thesis
    unfolding general_get_movement_range_def Let_def pos fst_conv snd_conv
    using row i
    apply (simp del: bind_assoc)
    apply (intro append_at_bind_ok base[simplified])
     apply simp_all
    apply (intro append_if_ok)
    apply (simp_all add: on_board_col palace_cols)
    done
qed

lemma soldier_range_ok:
  assumes "on_board (current_pos p)"
  shows "\<exists>r. soldier_get_movement_range p = Some r \<and> (\<forall>c\<in>set r. on_board c)"
proof -
  obtain row col where pos: "current_pos p = (row, col)" by (cases "current_pos p")
  from assms pos have row: "1 \<le> row" "row \<le> 10" and col: "col \<in> set alphabet"
    by (auto simp: on_board_def)
  from col obtain i where i: "alphabet_index col = Some i" "0 \<le> i" "i \<le> 8"
    using alphabet_index_Some by blast
  define left where "left = (if i = 0 then Some None
      else map_option (\<lambda>c. Some (row, c)) (alphabet_at (i - 1)))"
  define right where "right = (if i = 8 then Some None
      else map_option (\<lambda>c. Some (row, c)) (alphabet_at (i + 1)))"
  have "\<exists>lv. left = Some lv \<and> (\<forall>c. lv = Some c \<longrightarrow> on_board c)"
    using alphabet_at_Some[of "i - 1"] i row by (auto simp: left_def on_board_col)
  then obtain lv where lv: "left = Some lv" "\<And>c. lv = Some c \<Longrightarrow> on_board c" by blast
  have "\<exists>rv. right = Some rv \<and> (\<forall>c. rv = Some c \<longrightarrow> on_board c)"
    using alphabet_at_Some[of "i + 1"] i row by (auto simp: right_def on_board_col)
  then obtain rv where rv: "right = Some rv" "\<And>c. rv = Some c \<Longrightarrow> on_board c" by blast
  have fwd: "on_board (row + y_movement_direction p, col)"
    if "\<not> (color p = BLUE \<and> row = 1)" "\<not> (color p = RED \<and> row = 10)"
    using that row col by (cases "color p") (auto simp: on_board_col y_movement_direction_def)
  show ?thesis
    unfolding soldier_get_movement_range_def Let_def pos fst_conv snd_conv
    using lv rv fwd row
    unfolding left_def right_def
    by (auto simp: i(1) on_board_col palace_cols split: option.splits)
qed

section \<open>Movement ranges stay on the board\<close>

lemma get_movement_range_ok:
  assumes "on_board (current_pos p)"
    and "kind p = GENERAL \<or> kind p = GUARD \<Longrightarrow> snd (current_pos p) \<noteq> CHR ''i''"
  shows "\<exists>r. get_movement_range p = Some r \<and> (\<forall>c\<in>set r. on_board c)"
  using assms
  by (cases "kind p")
     (simp_all add: get_movement_range_def guard_get_movement_range_def
        cannon_get_movement_range_def general_range_ok horse_range_ok elephant_range_ok
        chariot_range_ok soldier_range_ok)

text \<open>
  C6. For every piece and every position it occupies on the board (a square of the
  10 x 9 board; for a General or a Guard a square of a palace, the only squares on which
  the constructor puts them and to which the palace rule of the legality check lets them
  move), \<open>get_movement_range\<close> returns, and every coordinate it returns has its row
  between 1 and 10 and its column among \<open>'a'\<close>..\<open>'i'\<close>.
\<close>

theorem C6_movement_range_on_board:
  assumes "piece_ok p"
  shows "\<exists>r. get_movement_range p = Some r \<and>
             (\<forall>c\<in>set r. 1 \<le> fst c \<and> fst c \<le> 10 \<and> snd c \<in> set alphabet)"
proof -
  from assms have o: "on_board (current_pos p)" by (simp add: piece_ok_def)
  have "snd (current_pos p) \<noteq> CHR ''i''" if "kind p = GENERAL \<or> kind p = GUARD"
    using assms that by (auto simp: piece_ok_def red_palace_def blue_palace_def)
  from get_movement_range_ok[OF o this] show ?thesis by (simp add: on_board_def)
qed

theorem C6_movement_range_on_board_witness:
  "piece_ok \<lparr>kind = GENERAL, color = RED, current_pos = (2, CHR ''e'')\<rparr> \<and>
   (\<exists>r. get_movement_range \<lparr>kind = GENERAL, color = RED, current_pos = (2, CHR ''e'')\<rparr> = Some r
        \<and> (\<forall>c\<in>set r. 1 \<le> fst c \<and> fst c \<le> 10 \<and> snd c \<in> set alphabet))"
  using C6_movement_range_on_board[of "\<lparr>kind = GENERAL, color = RED, current_pos = (2, CHR ''e'')\<rparr>"]
  by (simp add: piece_ok_def on_board_def alphabet_def red_palace_def)

section \<open>Names, grids and cells\<close>

lemma name_has_simps:
  "name_has ''CANNON'' p = (kind p = CANNON)"
  "name_has ''CHARIOT'' p = (kind p = CHARIOT)"
  "name_has ''GENERAL'' p = (kind p = GENERAL)"
  "name_has ''GUARD'' p = (kind p = GUARD)"
  "name_has ''ELEPHANT'' p = (kind p = ELEPHANT)"
  "name_has ''HORSE'' p = (kind p = HORSE)"
  by (cases "kind p"; cases "color p";
      simp add: name_has_def get_name_def color_str_def kind_str_def sublist_code)+

lemma cannon_in_name: "sublist ''CANNON'' (get_name p) = (kind p = CANNON)"
  using name_has_simps(1) by (simp add: name_has_def)

lemma upto_1_10: "[1..10::int] = [1,2,3,4,5,6,7,8,9,10]"
  by (simp add: upto_rec1)

lemma distinct_alphabet: "distinct alphabet"
  by (simp add: alphabet_def)

lemma grid_ok_row:
  assumes "grid_ok b"
  shows "(map_of (board b) r \<noteq> None) = (1 \<le> r \<and> r \<le> 10)"
proof -
  have "(map_of (board b) r \<noteq> None) = (r \<in> fst ` set (board b))"
    by (simp add: map_of_eq_None_iff)
  also have "fst ` set (board b) = set (map fst (board b))" by simp
  also from assms have "\<dots> = set [1..10]" by (simp only: grid_ok_def)
  finally show ?thesis by simp
qed

lemma grid_ok_row_keys:
  assumes "grid_ok b" "map_of (board b) r = Some row"
  shows "map fst row = alphabet"
proof -
  from assms(2) have "(r, row) \<in> set (board b)" by (rule map_of_SomeD)
  with assms(1) show ?thesis by (auto simp: grid_ok_def list_all_iff)
qed

lemma grid_ok_contents:
  assumes "grid_ok b"
  shows "(get_location_contents b k \<noteq> None) = on_board k"
proof (cases "map_of (board b) (fst k)")
  case None
  with grid_ok_row[OF assms, of "fst k"] show ?thesis
    by (auto simp: get_location_contents_def on_board_def)
next
  case (Some row)
  from grid_ok_row_keys[OF assms Some] have "(map_of row (snd k) \<noteq> None) = (snd k \<in> set alphabet)"
    by (metis image_set map_of_eq_None_iff)
  with Some grid_ok_row[OF assms, of "fst k"] show ?thesis
    by (auto simp: get_location_contents_def on_board_def)
qed

lemma grid_ok_contents_Some:
  "grid_ok b \<Longrightarrow> on_board k \<Longrightarrow> \<exists>x. get_location_contents b k = Some x"
  using grid_ok_contents by blast

lemma grid_ok_contents_on_board:
  "grid_ok b \<Longrightarrow> get_location_contents b k = Some x \<Longrightarrow> on_board k"
  using grid_ok_contents[of b k] by simp

lemma update_keys_same:
  "k \<in> set (map fst al) \<Longrightarrow> map fst (AList.update k v al) = map fst al"
  by (simp add: update_keys)

lemma list_all_update:
  "list_all P al \<Longrightarrow> P (k, v) \<Longrightarrow> list_all P (AList.update k v al)"
  by (induction al) auto

lemma set_location_ok:
  assumes "grid_ok b" "on_board k"
  shows "\<exists>b'. set_location b k v = Some b' \<and> grid_ok b'
           \<and> general_locations b' = general_locations b \<and> checkmate b' = checkmate b
           \<and> (\<forall>k'. get_location_contents b' k' = (if k' = k then Some v else get_location_contents b k'))"
proof -
  obtain r c where k: "k = (r, c)" by (cases k)
  from assms k have r: "1 \<le> r" "r \<le> 10" and c: "c \<in> set alphabet" by (auto simp: on_board_def)
  from grid_ok_row[OF assms(1), of r] r obtain row where row: "map_of (board b) r = Some row"
    by auto
  have keys: "map fst row = alphabet" by (rule grid_ok_row_keys[OF assms(1) row])
  define row' where "row' = AList.update c v row"
  define b' where "b' = b\<lparr>board := AList.update r row' (board b)\<rparr>"
  have sl: "set_location b k v = Some b'"
    by (simp add: set_location_def k row b'_def row'_def)
  have keys': "map fst row' = alphabet"
    using keys c by (simp add: row'_def update_keys)
  have rin: "r \<in> set (map fst (board b))"
    using row by (metis image_set map_of_eq_None_iff option.distinct(1))
  have ok': "grid_ok b'"
    using assms(1) keys' rin
    by (auto simp: grid_ok_def b'_def update_keys intro: list_all_update)
  have "get_location_contents b' k' = (if k' = k then Some v else get_location_contents b k')" for k'
    by (cases k') (auto simp: get_location_contents_def b'_def update_conv' row'_def k row)
  with sl ok' show ?thesis by (auto simp: b'_def)
qed

lemma alist_ext:
  assumes "map fst xs = map fst ys" "distinct (map fst xs)"
    and "\<And>k. k \<in> set (map fst xs) \<Longrightarrow> map_of xs k = map_of ys k"
  shows "xs = ys"
  using assms
proof (induction xs arbitrary: ys)
  case Nil
  then show ?case by simp
next
  case (Cons x xs)
  then obtain y ys' where ys: "ys = y # ys'" by (cases ys) auto
  from Cons.prems(1) ys have fst_eq: "fst x = fst y" and keys: "map fst xs = map fst ys'" by auto
  from Cons.prems(3)[of "fst x"] ys fst_eq have "snd x = snd y" by (cases x; cases y) auto
  with fst_eq have xy: "x = y" by (simp add: prod_eq_iff)
  have "map_of xs k = map_of ys' k" if "k \<in> set (map fst xs)" for k
  proof -
    from that Cons.prems(2) have "k \<noteq> fst x" by force
    with Cons.prems(3)[of k] that ys xy show ?thesis by (cases y) auto
  qed
  with Cons.IH[OF keys] Cons.prems(2) have "xs = ys'" by auto
  with xy ys show ?case by simp
qed

lemma grid_ext:
  assumes "grid_ok b" "grid_ok b'"
    and "\<And>k. on_board k \<Longrightarrow> get_location_contents b k = get_location_contents b' k"
  shows "board b = board b'"
proof (rule alist_ext)
  from assms(1,2) show "map fst (board b) = map fst (board b')" by (simp add: grid_ok_def)
  from assms(1) show "distinct (map fst (board b))" by (simp add: grid_ok_def)
  fix r assume "r \<in> set (map fst (board b))"
  with assms(1) have r: "1 \<le> r" "r \<le> 10" by (auto simp: grid_ok_def)
  from grid_ok_row[OF assms(1), of r] r obtain row where row: "map_of (board b) r = Some row" by auto
  from grid_ok_row[OF assms(2), of r] r obtain row' where row': "map_of (board b') r = Some row'" by auto
  have "row = row'"
  proof (rule alist_ext)
    show "map fst row = map fst row'"
      using grid_ok_row_keys[OF assms(1) row] grid_ok_row_keys[OF assms(2) row'] by simp
    show "distinct (map fst row)"
      using grid_ok_row_keys[OF assms(1) row] distinct_alphabet by simp
    fix c assume "c \<in> set (map fst row)"
    then have "on_board (r, c)" using grid_ok_row_keys[OF assms(1) row] r by (simp add: on_board_def)
    from assms(3)[OF this] row row' show "map_of row c = map_of row' c"
      by (simp add: get_location_contents_def)
  qed
  with row row' show "map_of (board b) r = map_of (board b') r" by simp
qed

lemma board_ext:
  assumes "grid_ok b" "grid_ok b'"
    and "\<And>k. on_board k \<Longrightarrow> get_location_contents b k = get_location_contents b' k"
    and "general_locations b' = general_locations b" "checkmate b' = checkmate b"
  shows "b' = (b::janggi_board)"
  using grid_ext[OF assms(1,2,3)] assms(4,5) by simp

lemma grid_items_iff:
  assumes "grid_ok b"
  shows "(x \<in> set (grid_items b)) = (\<exists>k. get_location_contents b k = Some x)"
proof
  assume "x \<in> set (grid_items b)"
  then obtain r row c where rr: "(r, row) \<in> set (board b)" and cx: "(c, x) \<in> set row"
    by (auto simp: grid_items_def)
  from assms have d: "distinct (map fst (board b))" by (simp add: grid_ok_def)
  with rr have row: "map_of (board b) r = Some row" by simp
  from grid_ok_row_keys[OF assms row] distinct_alphabet have "distinct (map fst row)" by simp
  with cx have "map_of row c = Some x" by simp
  with row have "get_location_contents b (r, c) = Some x" by (simp add: get_location_contents_def)
  then show "\<exists>k. get_location_contents b k = Some x" ..
next
  assume "\<exists>k. get_location_contents b k = Some x"
  then obtain r c row where row: "map_of (board b) r = Some row" and c: "map_of row c = Some x"
    by (auto simp: get_location_contents_def bind_eq_Some_conv)
  from row have "(r, row) \<in> set (board b)" by (rule map_of_SomeD)
  moreover from c have "(c, x) \<in> set row" by (rule map_of_SomeD)
  ultimately show "x \<in> set (grid_items b)" by (force simp: grid_items_def)
qed

lemma grid_keys_iff:
  assumes "grid_ok b"
  shows "(k \<in> set (grid_keys b)) = on_board k"
proof -
  have "(k \<in> set (grid_keys b)) = (\<exists>row. (fst k, row) \<in> set (board b) \<and> snd k \<in> fst ` set row)"
    by (cases k) (force simp: grid_keys_def)
  also have "\<dots> = (\<exists>row. map_of (board b) (fst k) = Some row \<and> snd k \<in> set (map fst row))"
    using assms by (auto simp: grid_ok_def)
  also have "\<dots> = on_board k"
  proof -
    have "set (map fst row) = set alphabet" if "map_of (board b) (fst k) = Some row" for row
      using grid_ok_row_keys[OF assms that] by simp
    with grid_ok_row[OF assms, of "fst k"] show ?thesis
      unfolding on_board_def by (cases "map_of (board b) (fst k)") auto
  qed
  finally show ?thesis .
qed

section \<open>The hypothetical legality check returns\<close>

lemma found_names_ok:
  assumes "grid_ok b" "\<forall>k\<in>set cells. on_board k"
  shows "\<exists>f. found_names b cells = Some f"
  using assms(2)
proof (induction cells)
  case Nil
  then show ?case by simp
next
  case (Cons k cells)
  then obtain f where f: "found_names b cells = Some f" by auto
  from Cons.prems grid_ok_contents_Some[OF assms(1), of k] obtain x
    where "get_location_contents b k = Some x" by auto
  with f show ?case by simp
qed

lemma alphabet_nth_mem: "0 \<le> k \<Longrightarrow> k \<le> 8 \<Longrightarrow> alphabet ! nat k \<in> set alphabet"
  by (rule nth_mem) (simp add: alphabet_def)

lemma slice_bound_range:
  "lo \<le> hi \<Longrightarrow> lo \<le> slice_bound i lo hi \<and> slice_bound i lo hi \<le> hi"
  by (simp add: slice_bound_def Let_def)

lemma alphabet_slice_subset: "set (alphabet_slice a b) \<subseteq> set alphabet"
  using slice_bound_range[of 0 9 a] slice_bound_range[of 0 9 b]
  by (auto simp: alphabet_slice_def intro!: alphabet_nth_mem)

lemma alphabet_slice_down_subset: "set (alphabet_slice_down a b) \<subseteq> set alphabet"
  using slice_bound_range[of "- 1" 8 a] slice_bound_range[of "- 1" 8 b]
  by (auto simp: alphabet_slice_down_def intro!: alphabet_nth_mem)

lemma path_found_ok:
  assumes "grid_ok b" "on_board move_from" "on_board move_to"
  shows "\<exists>f. path_found b move_from move_to = Some f"
proof -
  obtain fr fc where mf: "move_from = (fr, fc)" by (cases move_from)
  obtain tr tc where mt: "move_to = (tr, tc)" by (cases move_to)
  from assms mf mt have rows: "1 \<le> fr" "fr \<le> 10" "1 \<le> tr" "tr \<le> 10"
    and cols: "fc \<in> set alphabet" "tc \<in> set alphabet" by (auto simp: on_board_def)
  from cols obtain fi ti where idx: "alphabet_index fc = Some fi" "alphabet_index tc = Some ti"
    using alphabet_index_Some by blast
  have up: "\<exists>f. found_names b (map (\<lambda>column. (fr, column)) (alphabet_slice x y)) = Some f" for x y
    using alphabet_slice_subset[of x y] rows
    by (intro found_names_ok[OF assms(1)]) (auto simp: on_board_def)
  have down: "\<exists>f. found_names b (map (\<lambda>column. (fr, column)) (alphabet_slice_down x y)) = Some f" for x y
    using alphabet_slice_down_subset[of x y] rows
    by (intro found_names_ok[OF assms(1)]) (auto simp: on_board_def)
  have rdown: "\<exists>f. found_names b (map (\<lambda>row. (row, fc)) (rev [tr + 1 .. fr - 1])) = Some f"
    using rows cols by (intro found_names_ok[OF assms(1)]) (auto simp: on_board_def)
  have rup: "\<exists>f. found_names b (map (\<lambda>row. (row, fc)) [fr + 1 .. tr - 1]) = Some f"
    using rows cols by (intro found_names_ok[OF assms(1)]) (auto simp: on_board_def)
  have d2: "\<exists>f. found_names b [(2, CHR ''e'')] = Some f"
    by (intro found_names_ok[OF assms(1)]) (simp add: on_board_col palace_cols)
  have d9: "\<exists>f. found_names b [(9, CHR ''e'')] = Some f"
    by (intro found_names_ok[OF assms(1)]) (simp add: on_board_col palace_cols)
  show ?thesis
  proof (cases "fr = tr")
    case True
    obtain f1 where f1: "(if char_less fc tc
                 then found_names b (map (\<lambda>column. (fr, column)) (alphabet_slice (fi + 1) ti))
                 else Some []) = Some f1" using up[of "fi + 1" ti] by (cases "char_less fc tc") auto
    obtain f2 where f2: "(if char_less tc fc
                 then found_names b (map (\<lambda>column. (fr, column)) (alphabet_slice_down (fi - 1) ti))
                 else Some []) = Some f2" using down[of "fi - 1" ti] by (cases "char_less tc fc") auto
    from True mt have mt': "move_to = (fr, tc)" by simp
    from idx f1 f2 show ?thesis by (auto simp: path_found_def mf mt' split: if_splits)
  next
    case False
    show ?thesis
    proof (cases "fc = tc")
      case True
      obtain f1 where f1: "(if fr > tr then found_names b (map (\<lambda>row. (row, fc)) (rev [tr + 1 .. fr - 1]))
                  else Some []) = Some f1" using rdown by (cases "fr > tr") auto
      obtain f2 where f2: "(if fr < tr then found_names b (map (\<lambda>row. (row, fc)) [fr + 1 .. tr - 1])
                  else Some []) = Some f2" using rup by (cases "fr < tr") auto
      from \<open>fr \<noteq> tr\<close> True f1 f2 show ?thesis
        by (auto simp: path_found_def mf mt Let_def split: if_splits)
    next
      case False
      with \<open>fr \<noteq> tr\<close> d2 d9 show ?thesis by (auto simp: path_found_def mf mt simp del: found_names.simps)
    qed
  qed
qed

lemma pieces_in_orthogonal_path_ok:
  assumes "grid_ok b" "on_board move_from" "on_board move_to"
  shows "\<exists>r. pieces_in_orthogonal_path b move_from move_to s = Some r"
  using path_found_ok[OF assms] by (auto simp: pieces_in_orthogonal_path_def)

lemma chariot_rejects_ok:
  assumes "grid_ok b" "on_board (current_pos p)" "on_board move_to"
  shows "\<exists>r. chariot_rejects b p move_to = Some r"
  using pieces_in_orthogonal_path_ok[OF assms, of "''ANY''"]
  by (auto simp: chariot_rejects_def)

lemma cannon_rejects_ok:
  assumes "grid_ok b" "on_board (current_pos p)" "on_board move_to"
  shows "\<exists>r. cannon_rejects b p move_to = Some r"
  using pieces_in_orthogonal_path_ok[OF assms, of "''ANY''"]
    pieces_in_orthogonal_path_ok[OF assms, of "''CANNON''"]
  by (auto simp: cannon_rejects_def)

lemma append_at_mem:
  assumes "append_at cond row i acc = Some r" "x \<in> set r"
  shows "x \<in> set acc \<or> (cond \<and> fst x = row \<and> alphabet_at i = Some (snd x))"
  using assms by (auto simp: append_at_def split: if_splits)

lemma alphabet_at_index:
  assumes "0 \<le> j" "alphabet_at j = Some c"
  shows "alphabet_index c = Some j"
proof -
  from assms have "j \<le> 8" by (auto simp: alphabet_at_def alphabet_def Let_def split: if_splits)
  with assms(1) have "j = 0 \<or> j = 1 \<or> j = 2 \<or> j = 3 \<or> j = 4 \<or> j = 5 \<or> j = 6 \<or> j = 7 \<or> j = 8"
    by arith
  then show ?thesis using assms(2)
    by (elim disjE; clarsimp simp: alphabet_at_def alphabet_index_def alphabet_def)
qed

lemma contents_at_ok:
  assumes "grid_ok b" "1 \<le> row" "row \<le> 10" "- 9 \<le> i" "i \<le> 8"
  shows "\<exists>x. contents_at b row i = Some x"
proof -
  from alphabet_at_Some[OF assms(4,5)] obtain c where c: "alphabet_at i = Some c" "c \<in> set alphabet"
    by blast
  with assms(2,3) have "on_board (row, c)" by (simp add: on_board_def)
  from grid_ok_contents_Some[OF assms(1) this] c show ?thesis by (simp add: contents_at_def)
qed

lemma contents_ok:
  assumes "grid_ok b" "1 \<le> row" "row \<le> 10" "c \<in> set alphabet"
  shows "\<exists>x. get_location_contents b (row, c) = Some x"
  using grid_ok_contents_Some[OF assms(1), of "(row, c)"] assms by (simp add: on_board_def)

lemma append_at_inv:
  assumes "append_at cond row i acc = Some r" "\<forall>x\<in>set acc. Q x"
    and "\<And>c. cond \<Longrightarrow> alphabet_at i = Some c \<Longrightarrow> Q (row, c)"
  shows "\<forall>x\<in>set r. Q x"
  using assms by (auto simp: append_at_def split: if_splits)

lemma jump_fromI:
  assumes "alphabet_at (i + dc) = Some c" "0 < row + dr" "row + dr \<le> 10" "0 \<le> i + dc"
    and "(\<bar>dr\<bar> = long \<and> \<bar>dc\<bar> = short) \<or> (\<bar>dr\<bar> = short \<and> \<bar>dc\<bar> = long)"
  shows "jump_from long short row i (row + dr, c)"
  using alphabet_at_index[OF assms(4,1)] assms(2,3,5) by (simp add: jump_from_def)

lemma elephant_range_mem:
  assumes "elephant_get_movement_range p = Some r"
    and "alphabet_index (snd (current_pos p)) = Some i" "on_board (current_pos p)"
  shows "\<forall>x\<in>set r. jump_from 3 2 (fst (current_pos p)) i x"
proof -
  from alphabet_index_range[OF assms(2)] assms(3)
  have bounds: "0 \<le> i" "i \<le> 8" "0 < fst (current_pos p)" "fst (current_pos p) \<le> 10"
    by (auto simp: on_board_def)
  let ?row = "fst (current_pos p)"
  let ?Q = "jump_from 3 2 ?row i"
  have len: "int (length alphabet) - 1 = 8" by (simp add: alphabet_def)
  from assms(1) obtain r1 where
    a1: "append_at (?row + 3 \<le> 10 \<and> i + 2 \<le> 8) (?row + 3) (i + 2) [] = Some r1" and
    b1: "(append_at (?row + 3 \<le> 10 \<and> i - 2 \<ge> 0) (?row + 3) (i - 2) r1 \<bind> (\<lambda>r2.
         append_at (?row - 3 > 0 \<and> i + 2 \<le> 8) (?row - 3) (i + 2) r2 \<bind> (\<lambda>r3.
         append_at (?row - 3 > 0 \<and> i - 2 \<ge> 0) (?row - 3) (i - 2) r3 \<bind> (\<lambda>r4.
         append_at (i + 3 \<le> 8 \<and> ?row + 2 \<le> 10) (?row + 2) (i + 3) r4 \<bind> (\<lambda>r5.
         append_at (i + 3 \<le> 8 \<and> ?row - 2 > 0) (?row - 2) (i + 3) r5 \<bind> (\<lambda>r6.
         append_at (i - 3 \<ge> 0 \<and> ?row + 2 \<le> 10) (?row + 2) (i - 3) r6 \<bind> (\<lambda>r7.
         append_at (i - 3 \<ge> 0 \<and> ?row - 2 > 0) (?row - 2) (i - 3) r7 \<bind> Some))))))) = Some r"
    unfolding elephant_get_movement_range_def Let_def len assms(2)
    by (simp only: Option.bind.bind_lunit bind_eq_Some_conv) blast
  from b1 obtain r2 r3 r4 r5 r6 r7 where
    a2: "append_at (?row + 3 \<le> 10 \<and> i - 2 \<ge> 0) (?row + 3) (i - 2) r1 = Some r2" and
    a3: "append_at (?row - 3 > 0 \<and> i + 2 \<le> 8) (?row - 3) (i + 2) r2 = Some r3" and
    a4: "append_at (?row - 3 > 0 \<and> i - 2 \<ge> 0) (?row - 3) (i - 2) r3 = Some r4" and
    a5: "append_at (i + 3 \<le> 8 \<and> ?row + 2 \<le> 10) (?row + 2) (i + 3) r4 = Some r5" and
    a6: "append_at (i + 3 \<le> 8 \<and> ?row - 2 > 0) (?row - 2) (i + 3) r5 = Some r6" and
    a7: "append_at (i - 3 \<ge> 0 \<and> ?row + 2 \<le> 10) (?row + 2) (i - 3) r6 = Some r7" and
    a8: "append_at (i - 3 \<ge> 0 \<and> ?row - 2 > 0) (?row - 2) (i - 3) r7 = Some r"
    by (simp only: bind_eq_Some_conv) blast
  have q1: "\<forall>x\<in>set r1. ?Q x"
    by (rule append_at_inv[OF a1]) (simp, rule jump_fromI, use bounds in auto)
  have q2: "\<forall>x\<in>set r2. ?Q x"
    by (rule append_at_inv[OF a2 q1]) (rule jump_fromI[where dc = "- 2", simplified], use bounds in auto)
  have q3: "\<forall>x\<in>set r3. ?Q x"
    by (rule append_at_inv[OF a3 q2]) (rule jump_fromI[where dr = "- 3", simplified], use bounds in auto)
  have q4: "\<forall>x\<in>set r4. ?Q x"
    by (rule append_at_inv[OF a4 q3]) (rule jump_fromI[where dr = "- 3" and dc = "- 2", simplified], use bounds in auto)
  have q5: "\<forall>x\<in>set r5. ?Q x"
    by (rule append_at_inv[OF a5 q4]) (rule jump_fromI, use bounds in auto)
  have q6: "\<forall>x\<in>set r6. ?Q x"
    by (rule append_at_inv[OF a6 q5]) (rule jump_fromI[where dr = "- 2", simplified], use bounds in auto)
  have q7: "\<forall>x\<in>set r7. ?Q x"
    by (rule append_at_inv[OF a7 q6]) (rule jump_fromI[where dc = "- 3", simplified], use bounds in auto)
  show ?thesis
    by (rule append_at_inv[OF a8 q7]) (rule jump_fromI[where dr = "- 2" and dc = "- 3", simplified], use bounds in auto)
qed


lemma horse_range_mem:
  assumes "horse_get_movement_range p = Some r"
    and "alphabet_index (snd (current_pos p)) = Some i" "on_board (current_pos p)"
  shows "\<forall>x\<in>set r. jump_from 2 1 (fst (current_pos p)) i x"
proof -
  from alphabet_index_range[OF assms(2)] assms(3)
  have bounds: "0 \<le> i" "i \<le> 8" "0 < fst (current_pos p)" "fst (current_pos p) \<le> 10"
    by (auto simp: on_board_def)
  let ?row = "fst (current_pos p)"
  let ?Q = "jump_from 2 1 ?row i"
  have len: "int (length alphabet) - 1 = 8" by (simp add: alphabet_def)
  from assms(1) obtain r1 where
    a1: "append_at (?row + 2 \<le> 10 \<and> i + 1 \<le> 8) (?row + 2) (i + 1) [] = Some r1" and
    b1: "(append_at (?row + 2 \<le> 10 \<and> i - 1 \<ge> 0) (?row + 2) (i - 1) r1 \<bind> (\<lambda>r2.
         append_at (?row - 2 > 0 \<and> i + 1 \<le> 8) (?row - 2) (i + 1) r2 \<bind> (\<lambda>r3.
         append_at (?row - 2 > 0 \<and> i - 1 \<ge> 0) (?row - 2) (i - 1) r3 \<bind> (\<lambda>r4.
         append_at (i + 2 \<le> 8 \<and> ?row + 1 \<le> 10) (?row + 1) (i + 2) r4 \<bind> (\<lambda>r5.
         append_at (i + 2 \<le> 8 \<and> ?row - 1 > 0) (?row - 1) (i + 2) r5 \<bind> (\<lambda>r6.
         append_at (i - 2 \<ge> 0 \<and> ?row + 1 \<le> 10) (?row + 1) (i - 2) r6 \<bind> (\<lambda>r7.
         append_at (i - 2 \<ge> 0 \<and> ?row - 1 > 0) (?row - 1) (i - 2) r7 \<bind> Some))))))) = Some r"
    unfolding horse_get_movement_range_def Let_def len assms(2)
    by (simp only: Option.bind.bind_lunit bind_eq_Some_conv) blast
  from b1 obtain r2 r3 r4 r5 r6 r7 where
    a2: "append_at (?row + 2 \<le> 10 \<and> i - 1 \<ge> 0) (?row + 2) (i - 1) r1 = Some r2" and
    a3: "append_at (?row - 2 > 0 \<and> i + 1 \<le> 8) (?row - 2) (i + 1) r2 = Some r3" and
    a4: "append_at (?row - 2 > 0 \<and> i - 1 \<ge> 0) (?row - 2) (i - 1) r3 = Some r4" and
    a5: "append_at (i + 2 \<le> 8 \<and> ?row + 1 \<le> 10) (?row + 1) (i + 2) r4 = Some r5" and
    a6: "append_at (i + 2 \<le> 8 \<and> ?row - 1 > 0) (?row - 1) (i + 2) r5 = Some r6" and
    a7: "append_at (i - 2 \<ge> 0 \<and> ?row + 1 \<le> 10) (?row + 1) (i - 2) r6 = Some r7" and
    a8: "append_at (i - 2 \<ge> 0 \<and> ?row - 1 > 0) (?row - 1) (i - 2) r7 = Some r"
    by (simp only: bind_eq_Some_conv) blast
  have q1: "\<forall>x\<in>set r1. ?Q x"
    by (rule append_at_inv[OF a1]) (simp, rule jump_fromI, use bounds in auto)
  have q2: "\<forall>x\<in>set r2. ?Q x"
    by (rule append_at_inv[OF a2 q1]) (rule jump_fromI[where dc = "- 1", simplified], use bounds in auto)
  have q3: "\<forall>x\<in>set r3. ?Q x"
    by (rule append_at_inv[OF a3 q2]) (rule jump_fromI[where dr = "- 2", simplified], use bounds in auto)
  have q4: "\<forall>x\<in>set r4. ?Q x"
    by (rule append_at_inv[OF a4 q3]) (rule jump_fromI[where dr = "- 2" and dc = "- 1", simplified], use bounds in auto)
  have q5: "\<forall>x\<in>set r5. ?Q x"
    by (rule append_at_inv[OF a5 q4]) (rule jump_fromI, use bounds in auto)
  have q6: "\<forall>x\<in>set r6. ?Q x"
    by (rule append_at_inv[OF a6 q5]) (rule jump_fromI[where dr = "- 1", simplified], use bounds in auto)
  have q7: "\<forall>x\<in>set r7. ?Q x"
    by (rule append_at_inv[OF a7 q6]) (rule jump_fromI[where dc = "- 2", simplified], use bounds in auto)
  show ?thesis
    by (rule append_at_inv[OF a8 q7]) (rule jump_fromI[where dr = "- 1" and dc = "- 2", simplified], use bounds in auto)
qed

lemma bind_returns:
  "m \<noteq> None \<Longrightarrow> (\<And>x. m = Some x \<Longrightarrow> f x \<noteq> None) \<Longrightarrow> (m \<bind> f) \<noteq> None"
  by (cases m) auto

lemma if_returns:
  "(c \<Longrightarrow> x \<noteq> None) \<Longrightarrow> (\<not> c \<Longrightarrow> y \<noteq> None) \<Longrightarrow> (if c then x else y) \<noteq> None"
  by simp

lemma contents_at_returns:
  "grid_ok b \<Longrightarrow> 1 \<le> row \<and> row \<le> 10 \<and> - 9 \<le> i \<and> i \<le> 8 \<Longrightarrow> contents_at b row i \<noteq> None"
  using contents_at_ok[of b row i] by auto

lemma contents_returns:
  "grid_ok b \<Longrightarrow> 1 \<le> row \<and> row \<le> 10 \<and> c \<in> set alphabet \<Longrightarrow> get_location_contents b (row, c) \<noteq> None"
  using contents_ok[of b row c] by auto

lemma is_elephant_path_blocked_ok:
  assumes "grid_ok b" "on_board (current_pos p)"
    and "alphabet_index (snd (current_pos p)) = Some i"
    and "jump_from 3 2 (fst (current_pos p)) i x"
  shows "is_elephant_path_blocked b p x \<noteq> None"
proof -
  obtain row col where pos: "current_pos p = (row, col)" by (cases "current_pos p")
  from assms(4) obtain j where j: "alphabet_index (snd x) = Some j"
    and x: "0 < fst x" "fst x \<le> 10"
      "(\<bar>fst x - row\<bar> = 3 \<and> \<bar>j - i\<bar> = 2) \<or> (\<bar>fst x - row\<bar> = 2 \<and> \<bar>j - i\<bar> = 3)"
    by (auto simp: jump_from_def pos split: option.splits)
  from alphabet_index_range[OF assms(3)] alphabet_index_range[OF j] assms(2) pos
  have bounds: "0 \<le> i" "i \<le> 8" "0 \<le> j" "j \<le> 8" "1 \<le> row" "row \<le> 10" "col \<in> set alphabet"
    by (auto simp: on_board_def)
  show ?thesis
    unfolding is_elephant_path_blocked_def Let_def pos fst_conv snd_conv
      assms(3)[unfolded pos snd_conv] j Option.bind.bind_lunit
    apply (intro bind_returns if_returns contents_at_returns[OF assms(1)]
        contents_returns[OF assms(1)])
    using x bounds apply auto
    done
qed

lemma is_horse_path_blocked_ok:
  assumes "grid_ok b" "on_board (current_pos p)"
    and "alphabet_index (snd (current_pos p)) = Some i"
    and "jump_from 2 1 (fst (current_pos p)) i x"
  shows "is_horse_path_blocked b p x \<noteq> None"
proof -
  obtain row col where pos: "current_pos p = (row, col)" by (cases "current_pos p")
  from assms(4) obtain j where j: "alphabet_index (snd x) = Some j"
    and x: "0 < fst x" "fst x \<le> 10"
      "(\<bar>fst x - row\<bar> = 2 \<and> \<bar>j - i\<bar> = 1) \<or> (\<bar>fst x - row\<bar> = 1 \<and> \<bar>j - i\<bar> = 2)"
    by (auto simp: jump_from_def pos split: option.splits)
  from alphabet_index_range[OF assms(3)] alphabet_index_range[OF j] assms(2) pos
  have bounds: "0 \<le> i" "i \<le> 8" "0 \<le> j" "j \<le> 8" "1 \<le> row" "row \<le> 10" "col \<in> set alphabet"
    by (auto simp: on_board_def)
  show ?thesis
    unfolding is_horse_path_blocked_def Let_def pos fst_conv snd_conv
      assms(3)[unfolded pos snd_conv] j Option.bind.bind_lunit
    apply (intro bind_returns if_returns contents_at_returns[OF assms(1)]
        contents_returns[OF assms(1)])
    using x bounds apply auto
    done
qed

lemma palace_on_board:
  "k \<in> set red_palace \<or> k \<in> set blue_palace \<Longrightarrow> on_board k \<and> snd k \<noteq> CHR ''i''"
  by (auto simp: red_palace_def blue_palace_def on_board_def alphabet_def)

lemma piece_ok_range:
  assumes "piece_ok p"
  shows "\<exists>r. get_movement_range p = Some r \<and> (\<forall>c\<in>set r. on_board c)"
proof (rule get_movement_range_ok)
  from assms show "on_board (current_pos p)" by (simp add: piece_ok_def)
  assume "kind p = GENERAL \<or> kind p = GUARD"
  with assms palace_on_board[of "current_pos p"] show "snd (current_pos p) \<noteq> CHR ''i''"
    by (auto simp: piece_ok_def)
qed

lemma piece_ok_on_board: "piece_ok p \<Longrightarrow> on_board (current_pos p)"
  by (simp add: piece_ok_def)

lemma elephant_rejects_returns:
  assumes "grid_ok b" "piece_ok p" "get_movement_range p = Some rng" "m \<in> set rng"
  shows "elephant_rejects b p m \<noteq> None"
proof (cases "kind p = ELEPHANT")
  case True
  from piece_ok_on_board[OF assms(2)] have ob: "on_board (current_pos p)" .
  then obtain i where i: "alphabet_index (snd (current_pos p)) = Some i"
    using alphabet_index_Some[of "snd (current_pos p)"] by (auto simp: on_board_def)
  from True assms(3) have "elephant_get_movement_range p = Some rng"
    by (simp add: get_movement_range_def)
  from elephant_range_mem[OF this i ob] assms(4)
  have "jump_from 3 2 (fst (current_pos p)) i m" by blast
  from is_elephant_path_blocked_ok[OF assms(1) ob i this] True show ?thesis
    by (simp add: elephant_rejects_def name_has_simps)
next
  case False
  then show ?thesis by (simp add: elephant_rejects_def name_has_simps)
qed

lemma horse_rejects_returns:
  assumes "grid_ok b" "piece_ok p" "get_movement_range p = Some rng" "m \<in> set rng"
  shows "horse_rejects b p m \<noteq> None"
proof (cases "kind p = HORSE")
  case True
  from piece_ok_on_board[OF assms(2)] have ob: "on_board (current_pos p)" .
  then obtain i where i: "alphabet_index (snd (current_pos p)) = Some i"
    using alphabet_index_Some[of "snd (current_pos p)"] by (auto simp: on_board_def)
  from True assms(3) have "horse_get_movement_range p = Some rng"
    by (simp add: get_movement_range_def)
  from horse_range_mem[OF this i ob] assms(4)
  have "jump_from 2 1 (fst (current_pos p)) i m" by blast
  from is_horse_path_blocked_ok[OF assms(1) ob i this] True show ?thesis
    by (simp add: horse_rejects_def name_has_simps)
next
  case False
  then show ?thesis by (simp add: horse_rejects_def name_has_simps)
qed

lemma legality_rules_returns:
  assumes "grid_ok b" "piece_ok p" "get_movement_range p = Some rng"
  shows "legality_rules b m p t rng \<noteq> None"
proof (cases "color p \<noteq> t \<or> m \<notin> set rng")
  case True
  then show ?thesis by (auto simp: legality_rules_def Let_def)
next
  case False
  then have m: "m \<in> set rng" and t: "color p = t" by auto
  from piece_ok_range[OF assms(2)] assms(3) m have obm: "on_board m" by auto
  from piece_ok_on_board[OF assms(2)] have obp: "on_board (current_pos p)" .
  from grid_ok_contents[OF assms(1), of m] obm have c: "get_location_contents b m \<noteq> None" by simp
  from chariot_rejects_ok[OF assms(1) obp obm] have r1: "chariot_rejects b p m \<noteq> None" by auto
  from cannon_rejects_ok[OF assms(1) obp obm] have r2: "cannon_rejects b p m \<noteq> None" by auto
  note r3 = elephant_rejects_returns[OF assms m]
  note r4 = horse_rejects_returns[OF assms m]
  show ?thesis
    unfolding legality_rules_def Let_def
    by (intro if_returns bind_returns c r1 r2 r3 r4) simp_all
qed

lemma pass_legality_check_hypothetical_returns:
  assumes "grid_ok b" "piece_ok p" "on_board (general_locations b t)"
  shows "pass_legality_check_hypothetical b m p t \<noteq> None"
proof -
  from piece_ok_range[OF assms(2)] obtain rng where r: "get_movement_range p = Some rng" by blast
  from grid_ok_contents[OF assms(1), of "general_locations b t"] assms(3)
  have g: "get_location_contents b (general_locations b t) \<noteq> None" by simp
  show ?thesis
    unfolding pass_legality_check_hypothetical_def r Option.bind.bind_lunit
    by (intro bind_returns g legality_rules_returns[OF assms(1,2) r])
qed

lemma threatens_returns:
  assumes "grid_ok b" "piece_ok item" "on_board (general_locations b e)"
  shows "threatens b gl e item moves \<noteq> None"
proof (induction moves)
  case Nil
  then show ?case by simp
next
  case (Cons m moves)
  from pass_legality_check_hypothetical_returns[OF assms, of m] Cons show ?case
    by (auto split: if_splits)
qed

lemma check_scan_returns:
  assumes "grid_ok b" "on_board (general_locations b e)"
    and "\<forall>p. Some p \<in> set items \<longrightarrow> piece_ok p"
  shows "check_scan b gl gc e items \<noteq> None"
  using assms(3)
proof (induction items)
  case Nil
  then show ?case by simp
next
  case (Cons item items)
  then have IH: "check_scan b gl gc e items \<noteq> None" by simp
  show ?case
  proof (cases item)
    case None
    with IH show ?thesis by simp
  next
    case (Some p)
    with Cons.prems have ok: "piece_ok p" by simp
    from piece_ok_range[OF ok] obtain r where r: "get_movement_range p = Some r" by blast
    from threatens_returns[OF assms(1) ok assms(2), of gl r] IH Some r show ?thesis
      by (auto split: if_splits)
  qed
qed

lemma pieces_ok_iff: "pieces_ok b = (\<forall>p. Some p \<in> set (grid_items b) \<longrightarrow> piece_ok p)"
  by (auto simp: pieces_ok_def list_all_iff split: option.splits)

lemma get_general_check_status_returns:
  assumes "grid_ok b" "pieces_ok b" "generals_on_board b"
  shows "get_general_check_status b c \<noteq> None"
proof -
  from assms(3) have "on_board (general_locations b (if c = BLUE then RED else BLUE))"
    by (simp add: generals_on_board_def)
  from check_scan_returns[OF assms(1) this] assms(2) show ?thesis
    by (simp add: get_general_check_status_def Let_def pieces_ok_iff)
qed

lemma raw_check_zone_returns:
  assumes "\<forall>p. Some p \<in> set items \<longrightarrow> piece_ok p"
  shows "raw_check_zone c items \<noteq> None"
  using assms
proof (induction items)
  case Nil
  then show ?case by simp
next
  case (Cons item items)
  then have IH: "raw_check_zone c items \<noteq> None" by simp
  show ?case
  proof (cases item)
    case None
    with IH show ?thesis by simp
  next
    case (Some p)
    with Cons.prems have ok: "piece_ok p" by simp
    from piece_ok_range[OF ok] obtain r where r: "get_movement_range p = Some r" by blast
    with IH Some show ?thesis by auto
  qed
qed

lemma safe_general_move_check_returns:
  assumes "pieces_ok b"
  shows "safe_general_move_check b c m \<noteq> None"
  using raw_check_zone_returns[of "grid_items b" c] assms
  by (auto simp: safe_general_move_check_def pieces_ok_iff)

lemma legal_moves_returns:
  assumes "grid_ok b" "piece_ok item" "on_board (general_locations b t)"
  shows "legal_moves b item t moves \<noteq> None"
proof (induction moves)
  case Nil
  then show ?case by simp
next
  case (Cons m moves)
  from pass_legality_check_hypothetical_returns[OF assms, of m] Cons show ?case by auto
qed

lemma stuck_check_zone_returns:
  assumes "grid_ok b" "on_board (general_locations b c)"
    and "\<forall>p. Some p \<in> set items \<longrightarrow> piece_ok p"
  shows "stuck_check_zone b c items \<noteq> None"
  using assms(3)
proof (induction items)
  case Nil
  then show ?case by simp
next
  case (Cons item items)
  then have IH: "stuck_check_zone b c items \<noteq> None" by simp
  show ?case
  proof (cases item)
    case None
    with IH show ?thesis by simp
  next
    case (Some p)
    with Cons.prems have ok: "piece_ok p" by simp
    from piece_ok_range[OF ok] obtain r where r: "get_movement_range p = Some r" by blast
    from legal_moves_returns[OF assms(1) ok assms(2), of r] IH Some r show ?thesis by auto
  qed
qed

lemma escape_options_returns:
  assumes "grid_ok b" "piece_ok g" "on_board (general_locations b (color g))"
  shows "escape_options b g zone opts \<noteq> None"
proof (induction opts)
  case Nil
  then show ?case by simp
next
  case (Cons m opts)
  from pass_legality_check_hypothetical_returns[OF assms, of m] Cons show ?case by auto
qed

lemma is_general_stuck_returns:
  assumes "grid_ok b" "pieces_ok b" "generals_on_board b" "piece_ok g"
  shows "is_general_stuck b (Some g) c \<noteq> None"
proof -
  from assms(3) have gl: "on_board (general_locations b x)" for x
    by (cases x) (simp_all add: generals_on_board_def)
  from piece_ok_range[OF assms(4)] obtain r where r: "get_movement_range g = Some r" by blast
  from stuck_check_zone_returns[OF assms(1) gl, of "grid_items b" c] assms(2)
  obtain z where z: "stuck_check_zone b c (grid_items b) = Some z" by (auto simp: pieces_ok_iff)
  from escape_options_returns[OF assms(1,4) gl, of z r] r z show ?thesis
    by (auto simp: is_general_stuck_def)
qed

section \<open>Simulated moves restore the board\<close>

lemma not_NoneE: "m \<noteq> None \<Longrightarrow> (\<And>x. m = Some x \<Longrightarrow> P) \<Longrightarrow> P"
  by (cases m) auto

lemma case_None_iff: "(case m of None \<Rightarrow> True | Some x \<Rightarrow> False) = (m = None)"
  by (cases m) auto

lemma case_optionD:
  "(case m of None \<Rightarrow> False | Some x \<Rightarrow> P x) \<Longrightarrow> \<exists>x. m = Some x \<and> P x"
  by (cases m) auto

lemma case_optionI:
  "m = Some x \<Longrightarrow> P x \<Longrightarrow> (case m of None \<Rightarrow> False | Some x \<Rightarrow> P x)"
  by simp

lemma pieces_okD:
  assumes "grid_ok b" "pieces_ok b" "get_location_contents b k = Some (Some q)"
  shows "piece_ok q"
proof -
  from assms(3) have "Some q \<in> set (grid_items b)"
    unfolding grid_items_iff[OF assms(1)] by blast
  with assms(2) show ?thesis by (simp add: pieces_ok_iff)
qed

lemma pieces_okI:
  assumes "grid_ok b" "\<And>k q. get_location_contents b k = Some (Some q) \<Longrightarrow> piece_ok q"
  shows "pieces_ok b"
  unfolding pieces_ok_iff grid_items_iff[OF assms(1)] using assms(2) by blast

lemma in_syncD:
  assumes "grid_ok b" "in_sync b" "get_location_contents b k = Some (Some q)"
  shows "current_pos q = k"
proof -
  from grid_ok_contents_on_board[OF assms(1,3)] have "k \<in> set (grid_keys b)"
    by (simp add: grid_keys_iff[OF assms(1)])
  with assms(2) have "case get_location_contents b k of
                        Some (Some p) \<Rightarrow> current_pos p = k | _ \<Rightarrow> True"
    unfolding in_sync_def list_all_iff by blast
  with assms(3) show ?thesis by simp
qed

lemma in_syncI:
  assumes "\<And>k q. get_location_contents b k = Some (Some q) \<Longrightarrow> current_pos q = k"
  shows "in_sync b"
  unfolding in_sync_def list_all_iff using assms by (auto split: option.splits)

lemma in_sync_stands_on:
  assumes "grid_ok b" "in_sync b" "get_location_contents b k = Some (Some q)"
  shows "stands_on b q"
  using assms(3) in_syncD[OF assms] by (simp add: stands_on_def)

lemma stands_on_piece_ok:
  "grid_ok b \<Longrightarrow> pieces_ok b \<Longrightarrow> stands_on b p \<Longrightarrow> piece_ok p"
  unfolding stands_on_def by (rule pieces_okD)

lemma test_save_general_movement_result:
  assumes "grid_ok b" "pieces_ok b" "generals_on_board b" "piece_ok p" "on_board dest"
  shows "\<exists>r b'. test_save_general_movement b p dest c = Some (r, b') \<and> grid_ok b'
           \<and> general_locations b' = general_locations b \<and> checkmate b' = checkmate b
           \<and> (\<forall>k. get_location_contents b' k =
                    (if k = current_pos p then Some (Some p) else get_location_contents b k))"
proof -
  let ?src = "current_pos p"
  from piece_ok_on_board[OF assms(4)] have src: "on_board ?src" .
  from grid_ok_contents_Some[OF assms(1,5)] obtain save_item
    where save: "get_location_contents b dest = Some save_item" by blast
  from set_location_ok[OF assms(1,5), of "Some p"] obtain b1 where
    b1: "set_location b dest (Some p) = Some b1" "grid_ok b1"
      "general_locations b1 = general_locations b" "checkmate b1 = checkmate b"
      "\<And>k. get_location_contents b1 k = (if k = dest then Some (Some p) else get_location_contents b k)"
    by blast
  from set_location_ok[OF b1(2) src, of None] obtain b2 where
    b2: "set_location b1 ?src None = Some b2" "grid_ok b2"
      "general_locations b2 = general_locations b1" "checkmate b2 = checkmate b1"
      "\<And>k. get_location_contents b2 k = (if k = ?src then Some None else get_location_contents b1 k)"
    by blast
  have "pieces_ok b2"
  proof (rule pieces_okI[OF b2(2)])
    fix k q assume "get_location_contents b2 k = Some (Some q)"
    then have "q = p \<or> get_location_contents b k = Some (Some q)"
      by (auto simp: b2(5) b1(5) split: if_splits)
    with assms(4) pieces_okD[OF assms(1,2)] show "piece_ok q" by blast
  qed
  moreover have "generals_on_board b2"
    using assms(3) by (simp add: generals_on_board_def b2(3) b1(3))
  ultimately obtain still where still: "get_general_check_status b2 c = Some still"
    using get_general_check_status_returns[OF b2(2), of c] by (meson not_NoneE)
  from set_location_ok[OF b2(2) assms(5), of save_item] obtain b3 where
    b3: "set_location b2 dest save_item = Some b3" "grid_ok b3"
      "general_locations b3 = general_locations b2" "checkmate b3 = checkmate b2"
      "\<And>k. get_location_contents b3 k = (if k = dest then Some save_item else get_location_contents b2 k)"
    by blast
  from set_location_ok[OF b3(2) src, of "Some p"] obtain b4 where
    b4: "set_location b3 ?src (Some p) = Some b4" "grid_ok b4"
      "general_locations b4 = general_locations b3" "checkmate b4 = checkmate b3"
      "\<And>k. get_location_contents b4 k = (if k = ?src then Some (Some p) else get_location_contents b3 k)"
    by blast
  have run: "test_save_general_movement b p dest c = Some (\<not> still, b4)"
    by (simp add: test_save_general_movement_def save b1(1) b2(1) still b3(1) b4(1))
  have cells: "get_location_contents b4 k =
                 (if k = ?src then Some (Some p) else get_location_contents b k)" for k
    by (simp add: b4(5) b3(5) b2(5) b1(5) save)
  from run b4(2) cells show ?thesis
    by (simp add: b4(3,4) b3(3,4) b2(3,4) b1(3,4))
qed

lemma test_save_general_movement_restores:
  assumes "grid_ok b" "pieces_ok b" "generals_on_board b" "stands_on b p" "on_board dest"
  shows "\<exists>r. test_save_general_movement b p dest c = Some (r, b)"
proof -
  from assms(1,2,4) have ok: "piece_ok p" by (rule stands_on_piece_ok)
  from test_save_general_movement_result[OF assms(1,2,3) ok assms(5), of c]
  obtain r b' where res: "test_save_general_movement b p dest c = Some (r, b')" "grid_ok b'"
    "general_locations b' = general_locations b" "checkmate b' = checkmate b"
    "\<And>k. get_location_contents b' k =
           (if k = current_pos p then Some (Some p) else get_location_contents b k)"
    by blast
  have "b' = b"
  proof (rule board_ext[OF assms(1) res(2) _ res(3,4)])
    fix k show "get_location_contents b k = get_location_contents b' k"
      using assms(4) by (simp add: res(5) stands_on_def)
  qed
  with res(1) show ?thesis by blast
qed

lemma test_save_general_movement_unchanged:
  assumes "grid_ok b" "pieces_ok b" "generals_on_board b" "stands_on b p"
    and "test_save_general_movement b p dest c = Some (r, b')"
  shows "b' = b"
proof (cases "on_board dest")
  case True
  from test_save_general_movement_restores[OF assms(1-4) True, of c] assms(5) show ?thesis by auto
next
  case False
  with grid_ok_contents[OF assms(1), of dest] have "get_location_contents b dest = None" by simp
  with assms(5) show ?thesis by (simp add: test_save_general_movement_def)
qed

lemma break_moves_returns:
  assumes "grid_ok b" "pieces_ok b" "generals_on_board b" "stands_on b item"
    and "\<forall>m\<in>set moves. on_board m"
  shows "\<exists>r. break_moves b item gc gl moves = Some (r, b)"
  using assms(5)
proof (induction moves)
  case Nil
  then show ?case by auto
next
  case (Cons m moves)
  then obtain r0 where IH: "break_moves b item gc gl moves = Some (r0, b)" by auto
  from assms(1,2,4) have ok: "piece_ok item" by (rule stands_on_piece_ok)
  from assms(3) have "on_board (general_locations b gc)"
    by (cases gc) (simp_all add: generals_on_board_def)
  from pass_legality_check_hypothetical_returns[OF assms(1) ok this, of m]
  obtain legal where legal: "pass_legality_check_hypothetical b m item gc = Some legal"
    by (rule not_NoneE)
  from Cons.prems have "on_board m" by simp
  from test_save_general_movement_restores[OF assms(1-4) this, of gc]
  obtain saved where "test_save_general_movement b item m gc = Some (saved, b)" by blast
  with IH legal show ?case by (cases legal; cases saved; auto)
qed

lemma break_scan_returns:
  assumes "grid_ok b" "pieces_ok b" "generals_on_board b" "in_sync b"
    and "\<forall>k\<in>set cells. on_board k"
  shows "\<exists>r. break_scan b g cells = Some (r, b)"
  using assms(5)
proof (induction cells)
  case Nil
  then show ?case by auto
next
  case (Cons k cells)
  then obtain r0 where IH: "break_scan b g cells = Some (r0, b)" by auto
  from Cons.prems grid_ok_contents_Some[OF assms(1), of k] obtain item
    where item: "get_location_contents b k = Some item" by auto
  show ?case
  proof (cases item)
    case None
    with item IH show ?thesis by simp
  next
    case (Some it)
    with item have c: "get_location_contents b k = Some (Some it)" by simp
    from in_sync_stands_on[OF assms(1,4) c] have st: "stands_on b it" .
    from assms(1,2) c have ok: "piece_ok it" by (rule pieces_okD)
    from piece_ok_range[OF ok] obtain rng where
      rng: "get_movement_range it = Some rng" "\<forall>m\<in>set rng. on_board m" by blast
    from break_moves_returns[OF assms(1-3) st rng(2), of "color g" "current_pos g"]
    obtain found where "break_moves b it (color g) (current_pos g) rng = Some (found, b)" by blast
    with item Some IH rng(1) show ?thesis by (cases found; auto)
  qed
qed

lemma can_friendly_break_check_returns:
  assumes "grid_ok b" "pieces_ok b" "generals_on_board b" "in_sync b"
  shows "\<exists>r. can_friendly_break_check b (Some g) = Some (r, b)"
  using break_scan_returns[OF assms, of "grid_keys b" g] grid_keys_iff[OF assms(1)]
  by (simp add: can_friendly_break_check_def)

section \<open>The legality check of a real move returns and leaves the board as it was\<close>

lemma generals_on_board_color: "generals_on_board b \<Longrightarrow> on_board (general_locations b c)"
  by (cases c) (simp_all add: generals_on_board_def)

lemma general_at_on_board:
  assumes "grid_ok b" "general_at b c"
  shows "on_board (general_locations b c)"
  using assms grid_ok_contents[of b "general_locations b c"]
  by (auto simp: general_at_def split: option.splits)

lemma well_formed_parts:
  assumes "well_formed b"
  shows "grid_ok b" "pieces_ok b" "generals_on_board b" "in_sync b"
  using assms general_at_on_board[of b RED] general_at_on_board[of b BLUE]
  by (auto simp: well_formed_def generals_on_board_def)

lemma general_at_Some:
  "general_at b c \<Longrightarrow> \<exists>g. get_location_contents b (general_locations b c) = Some (Some g)"
  by (auto simp: general_at_def split: option.splits)

lemma pass_legality_check_hypothetical_mode:
  "pass_legality_check b m p t True = map_option (\<lambda>r. (r, b)) (pass_legality_check_hypothetical b m p t)"
  by (auto simp: pass_legality_check_def pass_legality_check_hypothetical_def
      split: Option.bind_split)

lemma check_filter_returns:
  assumes "grid_ok b" "pieces_ok b" "generals_on_board b" "in_sync b"
    and "stands_on b p" "on_board m"
  shows "\<exists>r. check_filter b m p t (Some g) = Some (r, b)"
proof -
  from get_general_check_status_returns[OF assms(1-3), of t]
  obtain in_check where ic: "get_general_check_status b t = Some in_check" by (rule not_NoneE)
  from can_friendly_break_check_returns[OF assms(1-4), of g]
  obtain can_break where cb: "can_friendly_break_check b (Some g) = Some (can_break, b)" by blast
  from test_save_general_movement_restores[OF assms(1-3,5,6), of "color p"]
  obtain saves where sv: "test_save_general_movement b p m (color p) = Some (saves, b)" by blast
  have sf: "\<exists>safe. safe_general_move_check b c m = Some safe" for c
    using safe_general_move_check_returns[OF assms(2), of c m] by auto
  from sf[of RED] sf[of BLUE] obtain s1 s2 where
    "safe_general_move_check b RED m = Some s1" "safe_general_move_check b BLUE m = Some s2"
    by blast
  then show ?thesis
    by (cases in_check; cases can_break; cases "p = g")
       (auto simp: check_filter_def Let_def ic cb sv)
qed

lemma check_filter_unchanged:
  assumes "grid_ok b" "pieces_ok b" "generals_on_board b" "in_sync b"
    and "stands_on b p" "check_filter b m p t general = Some (r, b')"
  shows "b' = b"
proof (cases general)
  case None
  with assms(6) show ?thesis
    by (auto simp: check_filter_def Let_def can_friendly_break_check_def bind_eq_Some_conv
        split: if_splits)
next
  case (Some g)
  from can_friendly_break_check_returns[OF assms(1-4), of g]
  obtain can_break where cb: "can_friendly_break_check b (Some g) = Some (can_break, b)" by blast
  have sv: "b'' = b" if "test_save_general_movement b p m c = Some (x, b'')" for x b'' c
    using test_save_general_movement_unchanged[OF assms(1-3,5) that] .
  from assms(6) show ?thesis
    unfolding check_filter_def Let_def Some
    by (auto simp: bind_eq_Some_conv cb dest: sv split: if_splits)
qed


lemma pass_legality_check_returns_occupied:
  assumes "grid_ok b" "pieces_ok b" "generals_on_board b" "in_sync b"
    and "stands_on b p" "on_board m"
    and g: "get_location_contents b (general_locations b t) = Some (Some g)"
  shows "\<exists>r. pass_legality_check b m p t False = Some (r, b)"
proof -
  from stands_on_piece_ok[OF assms(1,2,5)] have ok: "piece_ok p" .
  from piece_ok_range[OF ok] obtain rng where rng: "get_movement_range p = Some rng" by blast
  from check_filter_returns[OF assms(1-6), of t g]
  obtain rej where rej: "check_filter b m p t (Some g) = Some (rej, b)" by blast
  from legality_rules_returns[OF assms(1) ok rng, of m t]
  obtain legal where "legality_rules b m p t rng = Some legal" by (rule not_NoneE)
  with rng g rej show ?thesis
    by (cases rej) (auto simp: pass_legality_check_def)
qed

lemma pass_legality_check_returns:
  assumes "grid_ok b" "pieces_ok b" "generals_on_board b" "in_sync b"
    and "stands_on b p" "on_board m" "general_at b t"
  shows "\<exists>r. pass_legality_check b m p t False = Some (r, b)"
proof -
  from general_at_Some[OF assms(7)] obtain g
    where "get_location_contents b (general_locations b t) = Some (Some g)" by blast
  from pass_legality_check_returns_occupied[OF assms(1-6) this] show ?thesis .
qed

lemma pass_legality_check_unchanged:
  assumes "grid_ok b" "pieces_ok b" "generals_on_board b" "in_sync b"
    and "stands_on b p" "pass_legality_check b m p t h = Some (r, b')"
  shows "b' = b"
proof -
  have cf: "b'' = b" if "check_filter b m p t general = Some (x, b'')" for x b'' general
    using check_filter_unchanged[OF assms(1-5) that] .
  from assms(6) show ?thesis
    unfolding pass_legality_check_def
    by (auto simp: bind_eq_Some_conv dest: cf split: if_splits)
qed

lemma pass_legality_check_result:
  assumes "pass_legality_check b m p t h = Some (r, b')"
  shows "\<exists>rng. get_movement_range p = Some rng \<and>
           (r \<longrightarrow> legality_rules b' m p t rng = Some True)"
  using assms unfolding pass_legality_check_def
  by (auto simp: bind_eq_Some_conv split: if_splits)

lemma legality_rules_TrueD:
  assumes "legality_rules b m p t rng = Some True"
  shows "color p = t" "m \<in> set rng"
    "\<exists>target. get_location_contents b m = Some target \<and>
        (\<forall>q. target = Some q \<longrightarrow> color q \<noteq> color p \<and> \<not> (kind p = CANNON \<and> kind q = CANNON))"
    "kind p = GENERAL \<or> kind p = GUARD \<Longrightarrow> m \<in> set blue_palace \<or> m \<in> set red_palace"
  using assms unfolding legality_rules_def Let_def
  by (auto simp: bind_eq_Some_conv name_has_simps split: if_splits option.splits)

lemma legality_rules_cannon:
  assumes "get_location_contents b m = Some (Some q)" "kind p = CANNON" "kind q = CANNON"
  shows "legality_rules b m p t rng = Some False"
  using assms by (simp add: legality_rules_def Let_def name_has_simps)

lemma append_if_inv:
  "\<forall>x\<in>set acc. Q x \<Longrightarrow> (cond \<Longrightarrow> \<forall>x\<in>set xs. Q x) \<Longrightarrow> \<forall>x\<in>set (append_if cond xs acc). Q x"
  by (auto simp: append_if_def)

lemma alphabet_at_neighbour:
  assumes "alphabet_index col = Some i" "alphabet_at (i + d) = Some c" "d = 1 \<or> d = - 1"
  shows "c \<noteq> col"
proof
  assume "c = col"
  from alphabet_index_range[OF assms(1)] have i: "0 \<le> i" "i \<le> 8" "alphabet_at i = Some col" by auto
  show False
  proof (cases "0 \<le> i + d")
    case True
    from alphabet_at_index[OF True assms(2)] \<open>c = col\<close> assms(1,3) show False by auto
  next
    case False
    with i assms(3) have "i = 0" "d = - 1" by auto
    with assms(1,2) \<open>c = col\<close> show False
      by (auto simp: alphabet_at_def alphabet_index_def alphabet_def split: if_splits)
  qed
qed

lemma general_range_excludes_self:
  assumes "general_get_movement_range p = Some rng"
  shows "current_pos p \<notin> set rng"
proof -
  obtain row col where pos: "current_pos p = (row, col)" by (cases "current_pos p")
  let ?Q = "\<lambda>x. x \<noteq> (row, col)"
  from assms obtain i where i: "alphabet_index col = Some i"
    by (auto simp: general_get_movement_range_def Let_def pos bind_eq_Some_conv)
  let ?r2 = "append_if (row + 1 \<le> 10) [(row + 1, col)] (append_if (row - 1 > 0) [(row - 1, col)] [])"
  have q2: "\<forall>x\<in>set ?r2. ?Q x" by (auto simp: append_if_def)
  from assms obtain r3 r4 where
    a3: "append_at True row (i + 1) ?r2 = Some r3" and
    a4: "append_at True row (i - 1) r3 = Some r4" and
    r: "rng = append_if (color p = RED \<and> ((row, col) = (1, CHR ''d'') \<or> (row, col) = (1, CHR ''f''))) [(2, CHR ''e'')]
          (append_if (color p = RED \<and> (row, col) = (2, CHR ''e''))
             [(1, CHR ''d''), (1, CHR ''f''), (3, CHR ''d''), (3, CHR ''f'')]
          (append_if (color p = RED \<and> ((row, col) = (3, CHR ''d'') \<or> (row, col) = (3, CHR ''f''))) [(2, CHR ''e'')]
          (append_if (color p = BLUE \<and> ((row, col) = (10, CHR ''d'') \<or> (row, col) = (10, CHR ''f''))) [(9, CHR ''e'')]
          (append_if (color p = BLUE \<and> (row, col) = (9, CHR ''e''))
             [(8, CHR ''d''), (8, CHR ''f''), (10, CHR ''d''), (10, CHR ''f'')]
          (append_if (color p = BLUE \<and> ((row, col) = (8, CHR ''d'') \<or> (row, col) = (8, CHR ''f''))) [(9, CHR ''e'')]
           r4)))))"
    unfolding general_get_movement_range_def Let_def pos fst_conv snd_conv i Option.bind.bind_lunit
    by (auto simp: bind_eq_Some_conv)
  have q3: "\<forall>x\<in>set r3. ?Q x"
    by (rule append_at_inv[OF a3 q2]) (use alphabet_at_neighbour[OF i, of 1] in auto)
  have q4: "\<forall>x\<in>set r4. ?Q x"
    by (rule append_at_inv[OF a4 q3]) (use alphabet_at_neighbour[OF i, of "- 1"] in auto)
  have "\<forall>x\<in>set rng. ?Q x"
    unfolding r by (intro append_if_inv q4) auto
  then show ?thesis by (auto simp: pos)
qed

lemma chariot_range_excludes_self:
  assumes "chariot_get_movement_range p = Some rng"
  shows "current_pos p \<notin> set rng"
proof -
  obtain row col where pos: "current_pos p = (row, col)" by (cases "current_pos p")
  let ?Q = "\<lambda>x. x \<noteq> (row, col)"
  have base: "\<forall>x\<in>set (map (\<lambda>r. (r, col)) (filter (\<lambda>r. r \<noteq> row) [1..10]) @
                 map (\<lambda>column. (row, column)) (filter (\<lambda>column. column \<noteq> col) alphabet)). ?Q x"
    by auto
  from assms have "\<forall>x\<in>set rng. ?Q x"
    unfolding chariot_get_movement_range_def Let_def pos fst_conv snd_conv
    apply simp
    apply (erule subst)
    apply (intro append_if_inv base)
    apply auto
    done
  then show ?thesis by (auto simp: pos)
qed

lemma jump_excludes_self:
  assumes "alphabet_index (snd k) = Some i" "jump_from long short (fst k) i k" "0 < long" "0 < short"
  shows False
  using assms by (auto simp: jump_from_def)

lemma soldier_range_excludes_self:
  assumes "soldier_get_movement_range p = Some rng"
  shows "current_pos p \<notin> set rng"
proof -
  obtain row col where pos: "current_pos p = (row, col)" by (cases "current_pos p")
  from assms obtain i where i: "alphabet_index col = Some i"
    by (auto simp: soldier_get_movement_range_def Let_def pos bind_eq_Some_conv)
  define forward where "forward =
          (if color p = BLUE \<and> row = 1 then None
           else if color p = RED \<and> row = 10 then None
           else Some (row + y_movement_direction p, col))"
  define c1 where "c1 = (color p = RED \<and> ((row, col) = (8, CHR ''d'') \<or> (row, col) = (8, CHR ''f'')))"
  define c2 where "c2 = (color p = RED \<and> (row, col) = (9, CHR ''e''))"
  define c3 where "c3 = (color p = BLUE \<and> ((row, col) = (3, CHR ''d'') \<or> (row, col) = (3, CHR ''f'')))"
  define c4 where "c4 = (color p = BLUE \<and> (row, col) = (2, CHR ''e''))"
  define d1 where "d1 = (if c1 then [Some (9, CHR ''e'')] else ([] :: coord option list))"
  define d2 where "d2 = (if c2 then [Some (10, CHR ''d''), Some (10, CHR ''f'')] else ([] :: coord option list))"
  define d3 where "d3 = (if c3 then [Some (2, CHR ''e'')] else ([] :: coord option list))"
  define diag where "diag = (if c4 then [Some (1, CHR ''d''), Some (1, CHR ''f'')] else ([] :: coord option list))"
  have alt: "soldier_get_movement_range p =
      (if i = 0 then Some None
       else map_option (\<lambda>c. Some (row, c)) (alphabet_at (i - 1))) \<bind> (\<lambda>left.
      (if i = 8 then Some None
       else map_option (\<lambda>c. Some (row, c)) (alphabet_at (i + 1))) \<bind> (\<lambda>right.
      Some (concat (map (\<lambda>direction. case direction of None \<Rightarrow> [] | Some c \<Rightarrow> [c])
                 ([forward, left, right] @ d1 @ d2 @ d3 @ diag)))))"
    unfolding soldier_get_movement_range_def Let_def pos fst_conv snd_conv i Option.bind.bind_lunit
      forward_def[symmetric] c1_def[symmetric] c2_def[symmetric] c3_def[symmetric] c4_def[symmetric]
      diag_def d1_def d2_def d3_def
    by (cases c1; cases c2; cases c3; cases c4; simp)
  from assms[unfolded alt] obtain left right where
    left: "(if i = 0 then Some None
            else map_option (\<lambda>c. Some (row, c)) (alphabet_at (i - 1))) = Some left" and
    right: "(if i = 8 then Some None
            else map_option (\<lambda>c. Some (row, c)) (alphabet_at (i + 1))) = Some right" and
    rng: "rng = concat (map (\<lambda>direction. case direction of None \<Rightarrow> [] | Some c \<Rightarrow> [c])
                 ([forward, left, right] @ d1 @ d2 @ d3 @ diag))"
    by (simp only: bind_eq_Some_conv option.inject) blast
  have f: "forward \<noteq> Some (row, col)"
    by (simp add: forward_def y_movement_direction_def)
  have l: "left \<noteq> Some (row, col)"
    using left alphabet_at_neighbour[OF i, of "- 1" col] by (auto split: if_splits)
  have r: "right \<noteq> Some (row, col)"
    using right alphabet_at_neighbour[OF i, of 1 col] by (auto split: if_splits)
  have d: "Some (row, col) \<notin> set (d1 @ d2 @ d3 @ diag)"
    by (auto simp: d1_def d2_def d3_def diag_def c1_def c2_def c3_def c4_def)
  have "x \<in> set rng \<Longrightarrow> Some x \<in> set ([forward, left, right] @ d1 @ d2 @ d3 @ diag)" for x
    unfolding rng by (auto split: option.splits)
  with f l r d have "(row, col) \<notin> set rng" by fastforce
  then show ?thesis by (simp add: pos)
qed

lemma range_excludes_self:
  assumes "on_board (current_pos p)" "get_movement_range p = Some rng"
  shows "current_pos p \<notin> set rng"
proof -
  from assms(1) obtain i where i: "alphabet_index (snd (current_pos p)) = Some i"
    using alphabet_index_Some[of "snd (current_pos p)"] by (auto simp: on_board_def)
  show ?thesis
  proof (cases "kind p")
    case GENERAL
    with assms(2) show ?thesis
      by (simp add: get_movement_range_def general_range_excludes_self)
  next
    case GUARD
    with assms(2) show ?thesis
      by (simp add: get_movement_range_def guard_get_movement_range_def general_range_excludes_self)
  next
    case HORSE
    with assms(2) have "horse_get_movement_range p = Some rng" by (simp add: get_movement_range_def)
    from horse_range_mem[OF this i assms(1)] jump_excludes_self[OF i, of 2 1] show ?thesis by auto
  next
    case ELEPHANT
    with assms(2) have "elephant_get_movement_range p = Some rng" by (simp add: get_movement_range_def)
    from elephant_range_mem[OF this i assms(1)] jump_excludes_self[OF i, of 3 2] show ?thesis by auto
  next
    case CHARIOT
    with assms(2) show ?thesis
      by (simp add: get_movement_range_def chariot_range_excludes_self)
  next
    case CANNON
    with assms(2) show ?thesis
      by (simp add: get_movement_range_def cannon_get_movement_range_def chariot_range_excludes_self)
  next
    case SOLDIER
    with assms(2) show ?thesis
      by (simp add: get_movement_range_def soldier_range_excludes_self)
  qed
qed

section \<open>The starting position is well formed\<close>

lemma new_board_well_formed:
  "case new_board of None \<Rightarrow> False | Some b \<Rightarrow> well_formed b"
  by code_simp

section \<open>Simulations, rejected moves and Cannons\<close>

lemma contents_stands_on:
  assumes "well_formed b" "get_location_contents b k = Some (Some p)"
  shows "stands_on b p" "current_pos p = k" "on_board k" "piece_ok p"
proof -
  note w = well_formed_parts[OF assms(1)]
  show "stands_on b p" by (rule in_sync_stands_on[OF w(1,4) assms(2)])
  show "current_pos p = k" by (rule in_syncD[OF w(1,4) assms(2)])
  show "on_board k" by (rule grid_ok_contents_on_board[OF w(1) assms(2)])
  show "piece_ok p" by (rule pieces_okD[OF w(1,2) assms(2)])
qed

lemma well_formed_general_at: "well_formed b \<Longrightarrow> general_at b t"
  by (cases t) (simp_all add: well_formed_def)

lemma move_piece_False_unchanged:
  assumes "well_formed b" "move_piece b f m t = Some (False, b')"
  shows "b' = b"
proof -
  note w = well_formed_parts[OF assms(1)]
  from assms(2) obtain item where item: "get_location_contents b f = Some item"
    by (auto simp: move_piece_def bind_eq_Some_conv)
  show ?thesis
  proof (cases item)
    case None
    with assms(2) item show ?thesis by (simp add: move_piece_def)
  next
    case (Some p)
    with item have c: "get_location_contents b f = Some (Some p)" by simp
    from assms(2) c obtain legal b1 where
      plc: "pass_legality_check b m p t False = Some (legal, b1)"
      by (auto simp: move_piece_def bind_eq_Some_conv)
    from pass_legality_check_unchanged[OF w contents_stands_on(1)[OF assms(1) c] plc]
    have b1: "b1 = b" .
    show ?thesis
    proof (cases legal)
      case True
      with assms(2) c plc show ?thesis
        by (auto simp: move_piece_def bind_eq_Some_conv Let_def)
    next
      case False
      with assms(2) c plc b1 show ?thesis by (simp add: move_piece_def)
    qed
  qed
qed

lemma move_piece_returns:
  assumes "well_formed b" "on_board f" "on_board m"
  shows "\<exists>r b'. move_piece b f m t = Some (r, b') \<and>
           (r = False) = (get_location_contents b f = Some None \<or>
              (\<exists>p. get_location_contents b f = Some (Some p) \<and>
                   pass_legality_check b m p t False = Some (False, b)))"
proof -
  note w = well_formed_parts[OF assms(1)]
  from grid_ok_contents_Some[OF w(1) assms(2)] obtain item
    where item: "get_location_contents b f = Some item" by blast
  show ?thesis
  proof (cases item)
    case None
    with item show ?thesis by (auto simp: move_piece_def)
  next
    case (Some p)
    with item have c: "get_location_contents b f = Some (Some p)" by simp
    from pass_legality_check_returns[OF w contents_stands_on(1)[OF assms(1) c] assms(3)
        well_formed_general_at[OF assms(1)], of t]
    obtain legal where legal: "pass_legality_check b m p t False = Some (legal, b)" by blast
    show ?thesis
    proof (cases legal)
      case False
      with legal c show ?thesis by (auto simp: move_piece_def)
    next
      case True
      from set_location_ok[OF w(1) assms(3), of "Some p"] obtain b2 where
        b2: "set_location b m (Some p) = Some b2" "grid_ok b2" by blast
      from set_location_ok[OF b2(2) assms(2), of None] obtain b3 where
        b3: "set_location b2 f None = Some b3" by blast
      from True legal c b2(1) b3 show ?thesis by (auto simp: move_piece_def Let_def)
    qed
  qed
qed

lemma cell_piece:
  assumes "grid_ok b" "pieces_ok b" "in_sync b" "get_location_contents b k = Some (Some p)"
  shows "stands_on b p" "current_pos p = k" "on_board k" "piece_ok p"
proof -
  show "stands_on b p" by (rule in_sync_stands_on[OF assms(1,3,4)])
  show "current_pos p = k" by (rule in_syncD[OF assms(1,3,4)])
  show "on_board k" by (rule grid_ok_contents_on_board[OF assms(1,4)])
  show "piece_ok p" by (rule pieces_okD[OF assms(1,2,4)])
qed

lemma move_piece_source_empty:
  assumes "get_location_contents b f = Some None"
  shows "move_piece b f m t = Some (False, b)"
  using assms by (simp add: move_piece_def)

lemma move_piece_check_fails:
  assumes "grid_ok b" "pieces_ok b" "generals_on_board b" "in_sync b"
    and "get_location_contents b f = Some (Some p)"
    and "pass_legality_check b m p t False = Some (False, b1)"
  shows "b1 = b" "move_piece b f m t = Some (False, b)"
proof -
  from pass_legality_check_unchanged[OF assms(1-4) cell_piece(1)[OF assms(1,2,4,5)] assms(6)]
  show b1: "b1 = b" .
  from assms(5,6) b1 show "move_piece b f m t = Some (False, b)"
    by (simp add: move_piece_def)
qed

lemma move_piece_False_same:
  assumes "grid_ok b" "pieces_ok b" "generals_on_board b" "in_sync b"
    and "move_piece b f m t = Some (False, b')"
  shows "b' = b"
proof -
  from assms(5) obtain item where item: "get_location_contents b f = Some item"
    by (auto simp: move_piece_def bind_eq_Some_conv)
  show ?thesis
  proof (cases item)
    case None
    with assms(5) item show ?thesis by (simp add: move_piece_def)
  next
    case (Some p)
    with item have c: "get_location_contents b f = Some (Some p)" by simp
    from assms(5) c obtain legal b1 where
      plc: "pass_legality_check b m p t False = Some (legal, b1)"
      by (auto simp: move_piece_def bind_eq_Some_conv)
    from pass_legality_check_unchanged[OF assms(1-4) cell_piece(1)[OF assms(1,2,4) c] plc]
    have b1: "b1 = b" .
    show ?thesis
    proof (cases legal)
      case True
      with assms(5) c plc show ?thesis
        by (auto simp: move_piece_def bind_eq_Some_conv Let_def)
    next
      case False
      with assms(5) c plc b1 show ?thesis by (simp add: move_piece_def)
    qed
  qed
qed

text \<open>
  A Cannon is never let onto a Cannon: on a board with the properties that every move
  keeps, the hypothetical check returns False, the real check and \<open>move_piece\<close> never return
  True, and they return False, leaving the board as it was, when the square recorded for
  the General of the colour to move is occupied.
\<close>

lemma cannon_onto_cannon_never_accepted:
  assumes "grid_ok b" "pieces_ok b" "generals_on_board b" "in_sync b"
    and "get_location_contents b move_from = Some (Some p)" "kind p = CANNON"
    and "get_location_contents b move_to = Some (Some q)" "kind q = CANNON"
  shows "pass_legality_check_hypothetical b move_to p turn = Some False"
    and "pass_legality_check b move_to p turn True = Some (False, b)"
    and "pass_legality_check b move_to p turn False \<noteq> Some (True, b')"
    and "move_piece b move_from move_to turn \<noteq> Some (True, b')"
    and "get_location_contents b (general_locations b turn) \<noteq> Some None \<Longrightarrow>
           pass_legality_check b move_to p turn False = Some (False, b)
           \<and> move_piece b move_from move_to turn = Some (False, b)"
proof -
  note s = cell_piece[OF assms(1,2,4,5)]
  note d = cell_piece[OF assms(1,2,4,7)]
  note rules = legality_rules_cannon[OF assms(7,6,8)]
  from piece_ok_range[OF s(4)] obtain rng where rng: "get_movement_range p = Some rng" by blast
  from grid_ok_contents_Some[OF assms(1) generals_on_board_color[OF assms(3), of turn]]
  obtain g where g: "get_location_contents b (general_locations b turn) = Some g" by blast
  from rng g rules show "pass_legality_check_hypothetical b move_to p turn = Some False"
    by (simp add: pass_legality_check_hypothetical_def)
  from rng g rules show "pass_legality_check b move_to p turn True = Some (False, b)"
    by (simp add: pass_legality_check_def)
  show real: "pass_legality_check b move_to p turn False \<noteq> Some (True, b')" for b'
  proof
    assume a: "pass_legality_check b move_to p turn False = Some (True, b')"
    from pass_legality_check_unchanged[OF assms(1-4) s(1) a] have "b' = b" .
    with pass_legality_check_result[OF a] rules show False by auto
  qed
  show "move_piece b move_from move_to turn \<noteq> Some (True, b')"
  proof
    assume "move_piece b move_from move_to turn = Some (True, b')"
    with assms(5) obtain legal b1 where
      "pass_legality_check b move_to p turn False = Some (legal, b1)" "legal"
      by (auto simp: move_piece_def bind_eq_Some_conv split: if_splits)
    with real[of b1] show False by simp
  qed
  show "pass_legality_check b move_to p turn False = Some (False, b)
        \<and> move_piece b move_from move_to turn = Some (False, b)"
    if "get_location_contents b (general_locations b turn) \<noteq> Some None"
  proof -
    from that g obtain gp where "get_location_contents b (general_locations b turn) = Some (Some gp)"
      by (cases g) auto
    from pass_legality_check_returns_occupied[OF assms(1-4) s(1) d(3) this]
    obtain r where r: "pass_legality_check b move_to p turn False = Some (r, b)" by blast
    with real[of b] have "\<not> r" by auto
    with r assms(5) show ?thesis by (simp add: move_piece_def)
  qed
qed

text \<open>
  C1. On a board whose grid has the constructor's keys, whose pieces record board squares
  (a General or Guard one inside a palace) and whose General locations are board squares,
  for every piece standing on the square it records, every destination square of the board
  and every colour, \<open>test_save_general_movement\<close> returns, whatever its answer, and the
  board it leaves equals the board it was given: the grid with the simulated piece back on
  its source cell and the original occupant back on the destination cell, every other cell,
  the General locations and the checkmate flag untouched.
\<close>

theorem C1_simulation_restores_board:
  assumes "grid_ok b" "pieces_ok b" "generals_on_board b"
    and "stands_on b friendly_piece" "on_board save_general_move"
  shows "\<exists>answer. test_save_general_movement b friendly_piece save_general_move general_color
           = Some (answer, b)"
  using assms by (rule test_save_general_movement_restores)

theorem C1_simulation_restores_board_witness:
  "case new_board of None \<Rightarrow> False
   | Some b \<Rightarrow>
       (\<exists>answer. test_save_general_movement b
           \<lparr>kind = SOLDIER, color = BLUE, current_pos = (7, CHR ''a'')\<rparr> (6, CHR ''a'') BLUE
         = Some (answer, b))"
proof (cases new_board)
  case None
  with new_board_well_formed show ?thesis by simp
next
  case (Some b)
  have "case new_board of None \<Rightarrow> False
        | Some b \<Rightarrow> well_formed b \<and>
            stands_on b \<lparr>kind = SOLDIER, color = BLUE, current_pos = (7, CHR ''a'')\<rparr>"
    by code_simp
  then have w: "well_formed b"
    and s: "stands_on b \<lparr>kind = SOLDIER, color = BLUE, current_pos = (7, CHR ''a'')\<rparr>"
    unfolding Some by simp_all
  have o: "on_board (6, CHR ''a'')" by (simp add: on_board_def alphabet_def)
  from C1_simulation_restores_board[OF well_formed_parts(1,2,3)[OF w] s o, of BLUE]
  show ?thesis unfolding Some by simp
qed


text \<open>
  The same position arises in a game: after the calls of \<open>exposed_game\<close>, RED's Cannon
  takes BLUE's General, BLUE passes, and the call that takes the Cannon back to (3, 'e')
  moves it (\<open>move_piece\<close> returns True) and then raises in \<open>update_check_status\<close>.
\<close>

lemma general_taken_in_game:
  "case play_from_start (exposed_game @ [(''e3'', ''e9''), (''a7'', ''a7'')]) of None \<Rightarrow> False
   | Some g \<Rightarrow>
       get_game_state g = UNFINISHED \<and> get_current_turn g = RED
       \<and> (case move_piece (current_board g) (9, CHR ''e'') (3, CHR ''e'') RED of
             Some (True, b) \<Rightarrow> True | _ \<Rightarrow> False)
       \<and> (case make_move g ''e9'' ''e3'' of None \<Rightarrow> True | Some r \<Rightarrow> False)"
  by code_simp

text \<open>
  C3. On every board with the properties that moves keep, for all coordinates and either
  colour: when the source square is empty, \<open>move_piece\<close> returns False and the board it
  leaves is the board it was given; when the source square holds a piece and the legality
  check of that piece returns False, the legality check has left the board as it was and
  \<open>move_piece\<close> returns False with the board it was given; and whenever \<open>move_piece\<close> returns
  False, the board it leaves (grid, recorded positions, General locations, checkmate flag)
  is the board it was given, so that a board that differs comes only with the answer True.
\<close>

theorem C3_rejected_move_mutates_nothing:
  assumes "grid_ok b" "pieces_ok b" "generals_on_board b" "in_sync b"
  shows "(get_location_contents b move_from = Some None \<longrightarrow>
            move_piece b move_from move_to turn = Some (False, b))
       \<and> (\<forall>p b1. get_location_contents b move_from = Some (Some p)
                   \<and> pass_legality_check b move_to p turn False = Some (False, b1) \<longrightarrow>
            b1 = b \<and> move_piece b move_from move_to turn = Some (False, b))
       \<and> (\<forall>b'. move_piece b move_from move_to turn = Some (False, b') \<longrightarrow> b' = b)
       \<and> (\<forall>made b'. move_piece b move_from move_to turn = Some (made, b') \<and> b' \<noteq> b \<longrightarrow> made)"
proof -
  have same: "b' = b" if "move_piece b move_from move_to turn = Some (False, b')" for b'
    using move_piece_False_same[OF assms that] .
  have "made" if "move_piece b move_from move_to turn = Some (made, b')" "b' \<noteq> b" for made b'
    using that same[of b'] by (cases made) auto
  with same move_piece_source_empty[of b move_from move_to turn]
    move_piece_check_fails[OF assms, of move_from _ move_to turn]
  show ?thesis by blast
qed

theorem C3_rejected_move_mutates_nothing_witness:
  "case new_board of None \<Rightarrow> False
   | Some b \<Rightarrow>
       get_location_contents b (5, CHR ''e'') = Some None
       \<and> move_piece b (5, CHR ''e'') (6, CHR ''e'') BLUE = Some (False, b)
       \<and> get_location_contents b (1, CHR ''a'')
           = Some (Some \<lparr>kind = CHARIOT, color = RED, current_pos = (1, CHR ''a'')\<rparr>)
       \<and> pass_legality_check b (2, CHR ''a'')
             \<lparr>kind = CHARIOT, color = RED, current_pos = (1, CHR ''a'')\<rparr> BLUE False
           = Some (False, b)
       \<and> move_piece b (1, CHR ''a'') (2, CHR ''a'') BLUE = Some (False, b)"
proof (cases new_board)
  case None
  with new_board_well_formed show ?thesis by simp
next
  case (Some b)
  from new_board_well_formed have w: "well_formed b" unfolding Some by simp
  note inv = well_formed_parts[OF w]
  let ?p = "\<lparr>kind = CHARIOT, color = RED, current_pos = (1, CHR ''a'')\<rparr>"
  have "case new_board of None \<Rightarrow> False
        | Some b \<Rightarrow>
            get_location_contents b (5, CHR ''e'') = Some None
            \<and> get_location_contents b (1, CHR ''a'') = Some (Some ?p)
            \<and> (case pass_legality_check b (2, CHR ''a'') ?p BLUE False of
                  Some (False, b1) \<Rightarrow> True | _ \<Rightarrow> False)"
    by code_simp
  then obtain b1 where e: "get_location_contents b (5, CHR ''e'') = Some None"
    and c: "get_location_contents b (1, CHR ''a'') = Some (Some ?p)"
    and l: "pass_legality_check b (2, CHR ''a'') ?p BLUE False = Some (False, b1)"
    unfolding Some by (auto split: option.splits bool.splits prod.splits)
  from C3_rejected_move_mutates_nothing[OF inv, of "(5, CHR ''e'')" "(6, CHR ''e'')" BLUE] e
  have 1: "move_piece b (5, CHR ''e'') (6, CHR ''e'') BLUE = Some (False, b)" by blast
  from C3_rejected_move_mutates_nothing[OF inv, of "(1, CHR ''a'')" "(2, CHR ''a'')" BLUE] c l
  have 2: "b1 = b \<and> move_piece b (1, CHR ''a'') (2, CHR ''a'') BLUE = Some (False, b)" by blast
  from e c l 1 2 show ?thesis unfolding Some by simp
qed

section \<open>The checkmate flag\<close>

lemma set_location_fields:
  assumes "set_location b k v = Some b'"
  shows "checkmate b' = checkmate b" "general_locations b' = general_locations b"
  using assms by (auto simp: set_location_def bind_eq_Some_conv)

lemma test_save_general_movement_checkmate:
  assumes "test_save_general_movement b p m c = Some (r, b')"
  shows "checkmate b' = checkmate b"
proof -
  from assms obtain b1 b2 b3 x where
    "set_location b m (Some p) = Some b1" "set_location b1 (current_pos p) None = Some b2"
    "set_location b2 m x = Some b3" "set_location b3 (current_pos p) (Some p) = Some b'"
    unfolding test_save_general_movement_def Let_def
    by (auto simp: bind_eq_Some_conv)
  then show ?thesis by (simp add: set_location_fields(1))
qed

lemma break_moves_checkmate:
  "break_moves b item gc gl moves = Some (r, b') \<Longrightarrow> checkmate b' = checkmate b"
proof (induction moves arbitrary: b)
  case Nil
  then show ?case by simp
next
  case (Cons m moves)
  show ?case
  proof (cases "m \<noteq> gl")
    case False
    with Cons show ?thesis by simp
  next
    case True
    with Cons.prems obtain legal where
      legal: "pass_legality_check_hypothetical b m item gc = Some legal"
      by (auto simp: bind_eq_Some_conv)
    show ?thesis
    proof (cases legal)
      case False
      with True legal Cons show ?thesis by simp
    next
      case l: True
      with True legal Cons.prems obtain saved b1 where
        sv: "test_save_general_movement b item m gc = Some (saved, b1)"
        by (auto simp: bind_eq_Some_conv)
      note c1 = test_save_general_movement_checkmate[OF sv]
      show ?thesis
      proof (cases saved)
        case True
        with \<open>m \<noteq> gl\<close> legal l sv Cons.prems c1 show ?thesis by simp
      next
        case False
        with \<open>m \<noteq> gl\<close> legal l sv Cons.prems
        have "break_moves b1 item gc gl moves = Some (r, b')" by simp
        from Cons.IH[OF this] c1 show ?thesis by simp
      qed
    qed
  qed
qed

lemma break_scan_checkmate:
  "break_scan b g cells = Some (r, b') \<Longrightarrow> checkmate b' = checkmate b"
proof (induction cells arbitrary: b)
  case Nil
  then show ?case by simp
next
  case (Cons k cells)
  from Cons.prems obtain item where item: "get_location_contents b k = Some item"
    by (auto simp: bind_eq_Some_conv)
  show ?case
  proof (cases item)
    case None
    with item Cons show ?thesis by simp
  next
    case (Some it)
    show ?thesis
    proof (cases "it \<noteq> g \<and> color it = color g")
      case False
      with item Some Cons show ?thesis by auto
    next
      case True
      with item Some Cons.prems obtain rng found b1 where
        bm: "get_movement_range it = Some rng"
            "break_moves b it (color g) (current_pos g) rng = Some (found, b1)"
        by (auto simp: bind_eq_Some_conv)
      note c1 = break_moves_checkmate[OF bm(2)]
      show ?thesis
      proof (cases found)
        case True
        with \<open>it \<noteq> g \<and> color it = color g\<close> item Some bm Cons.prems c1 show ?thesis by simp
      next
        case False
        with \<open>it \<noteq> g \<and> color it = color g\<close> item Some bm Cons.prems
        have "break_scan b1 g cells = Some (r, b')" by simp
        from Cons.IH[OF this] c1 show ?thesis by simp
      qed
    qed
  qed
qed

lemma can_friendly_break_check_checkmate:
  "can_friendly_break_check b general = Some (r, b') \<Longrightarrow> checkmate b' = checkmate b"
  by (cases general) (auto simp: can_friendly_break_check_def dest: break_scan_checkmate)

lemma check_filter_checkmate:
  assumes "check_filter b m p t general = Some (r, b')"
  shows "checkmate b' = checkmate b"
  using assms unfolding check_filter_def Let_def
  by (auto simp: bind_eq_Some_conv split: if_splits
      dest!: can_friendly_break_check_checkmate test_save_general_movement_checkmate)

lemma pass_legality_check_checkmate:
  assumes "pass_legality_check b m p t h = Some (r, b')"
  shows "checkmate b' = checkmate b"
  using assms unfolding pass_legality_check_def
  by (auto simp: bind_eq_Some_conv split: if_splits dest!: check_filter_checkmate)

lemma update_current_pos_fields:
  "checkmate (update_current_pos b p k) = checkmate b"
  "general_locations (update_current_pos b p k) = general_locations b"
  by (simp_all add: update_current_pos_def)

lemma move_piece_checkmate:
  assumes "move_piece b f m t = Some (r, b')"
  shows "checkmate b' = checkmate b"
proof -
  from assms obtain item where item: "get_location_contents b f = Some item"
    by (auto simp: move_piece_def bind_eq_Some_conv)
  show ?thesis
  proof (cases item)
    case None
    with assms item show ?thesis by (simp add: move_piece_def)
  next
    case (Some p)
    with assms item obtain legal b1 where
      plc: "pass_legality_check b m p t False = Some (legal, b1)"
      by (auto simp: move_piece_def bind_eq_Some_conv)
    note c1 = pass_legality_check_checkmate[OF plc]
    show ?thesis
    proof (cases legal)
      case False
      with assms item Some plc c1 show ?thesis by (simp add: move_piece_def)
    next
      case True
      with assms item Some plc obtain b2 b3 where
        "set_location b1 m (Some p) = Some b2" "set_location b2 f None = Some b3"
        "b' = (if is_general p
               then (update_current_pos b3 p m)\<lparr>general_locations :=
                       (general_locations (update_current_pos b3 p m))(t := m)\<rparr>
               else update_current_pos b3 p m)"
        by (auto simp: move_piece_def bind_eq_Some_conv Let_def)
      with c1 show ?thesis by (simp add: set_location_fields(1) update_current_pos_fields)
    qed
  qed
qed

lemma checkmate_side_mono:
  assumes "checkmate_side b general c = Some b'" "checkmate b"
  shows "checkmate b'"
  using assms unfolding checkmate_side_def
  by (auto simp: bind_eq_Some_conv split: if_splits dest!: can_friendly_break_check_checkmate)

lemma update_checkmate_status_mono:
  assumes "update_checkmate_status b = Some b'" "checkmate b"
  shows "checkmate b'"
  using assms unfolding update_checkmate_status_def
  by (auto simp: bind_eq_Some_conv dest: checkmate_side_mono)

lemma declare_checkmate_board: "current_board (declare_checkmate g c) = current_board g"
  by (simp add: declare_checkmate_def)

lemma in_check_branch_mono:
  assumes "in_check_branch g c = Some g'" "checkmate (current_board g)"
  shows "checkmate (current_board g')"
proof (cases "update_checkmate_status (current_board g)")
  case None
  with assms(1) show ?thesis by (simp add: in_check_branch_def)
next
  case (Some b)
  define g1 where "g1 = g\<lparr>is_in_check := (\<lambda>x. x = c), current_board := b\<rparr>"
  from assms(1) Some have "g' = (if checkmate b then declare_checkmate g1 c else g1)"
    by (auto simp: in_check_branch_def Let_def get_checkmate_status_def g1_def)
  then have "current_board g' = b"
    by (cases "checkmate b") (simp_all add: declare_checkmate_board g1_def)
  with update_checkmate_status_mono[OF Some assms(2)] show ?thesis by simp
qed

lemma update_check_status_mono:
  assumes "update_check_status g = Some g'" "checkmate (current_board g)"
  shows "checkmate (current_board g')"
proof (cases "get_general_check_status (current_board g) RED")
  case None
  with assms(1) show ?thesis by (simp add: update_check_status_def)
next
  case red: (Some r)
  show ?thesis
  proof (cases r)
    case True
    with assms(1) red have "in_check_branch g RED = Some g'" by (simp add: update_check_status_def)
    from in_check_branch_mono[OF this assms(2)] show ?thesis .
  next
    case False
    note not_red = this
    show ?thesis
    proof (cases "get_general_check_status (current_board g) BLUE")
      case None
      with assms(1) red not_red show ?thesis by (simp add: update_check_status_def)
    next
      case (Some bl)
      show ?thesis
      proof (cases bl)
        case True
        with assms(1) red not_red Some have "in_check_branch g BLUE = Some g'"
          by (simp add: update_check_status_def)
        from in_check_branch_mono[OF this assms(2)] show ?thesis .
      next
        case False
        with assms(1) red not_red Some have "g' = g\<lparr>is_in_check := (\<lambda>c. False)\<rparr>"
          by (simp add: update_check_status_def)
        with assms(2) show ?thesis by simp
      qed
    qed
  qed
qed

lemma change_turn_board: "current_board (change_turn g) = current_board g"
  by (simp add: change_turn_def)

lemma make_move_cases:
  assumes "make_move g f t = Some (r, g')"
  obtains (rejected) "g' = g" "\<not> r"
    | (passed) "g' = change_turn g" "r"
    | (refused) pf pt b where "parse_coordinate f = Some pf" "parse_coordinate t = Some pt"
        "move_piece (current_board g) pf pt (current_turn g) = Some (False, b)"
        "g' = g\<lparr>current_board := b\<rparr>" "\<not> r"
    | (made) pf pt b where "parse_coordinate f = Some pf" "parse_coordinate t = Some pt"
        "move_piece (current_board g) pf pt (current_turn g) = Some (True, b)"
        "update_check_status (change_turn (g\<lparr>current_board := b\<rparr>)) = Some g'" "r"
proof -
  from assms obtain rej where rej: "input_rejected f t = Some rej"
    by (cases "input_rejected f t") (simp_all add: make_move_def)
  have unfold: "make_move g f t =
      (if rej then Some (False, g)
       else if get_game_state g \<noteq> UNFINISHED then Some (False, g)
       else if f = t \<and> is_in_check g (current_turn g) = False then Some (True, change_turn g)
       else parse_coordinate f \<bind> (\<lambda>pf. parse_coordinate t \<bind> (\<lambda>pt.
           move_piece (current_board g) pf pt (current_turn g) \<bind> (\<lambda>(move_made, b).
             if move_made
             then update_check_status (change_turn (g\<lparr>current_board := b\<rparr>)) \<bind> (\<lambda>g2. Some (True, g2))
             else Some (False, g\<lparr>current_board := b\<rparr>)))))"
    unfolding make_move_def Let_def rej Option.bind.bind_lunit ..
  show thesis
  proof (cases "rej \<or> get_game_state g \<noteq> UNFINISHED")
    case True
    then have "make_move g f t = Some (False, g)" unfolding unfold by auto
    with assms have "g' = g" "\<not> r" by simp_all
    then show thesis by (rule rejected)
  next
    case open_game: False
    show thesis
    proof (cases "f = t \<and> is_in_check g (current_turn g) = False")
      case True
      with open_game have "make_move g f t = Some (True, change_turn g)" unfolding unfold by simp
      with assms have "g' = change_turn g" "r" by simp_all
      then show thesis by (rule passed)
    next
      case False
      with open_game assms have rest:
        "parse_coordinate f \<bind> (\<lambda>pf. parse_coordinate t \<bind> (\<lambda>pt.
           move_piece (current_board g) pf pt (current_turn g) \<bind> (\<lambda>(move_made, b).
             if move_made
             then update_check_status (change_turn (g\<lparr>current_board := b\<rparr>)) \<bind> (\<lambda>g2. Some (True, g2))
             else Some (False, g\<lparr>current_board := b\<rparr>)))) = Some (r, g')"
        unfolding unfold by (auto split: if_splits)
      then obtain pf pt mm b where p: "parse_coordinate f = Some pf" "parse_coordinate t = Some pt"
        and mp: "move_piece (current_board g) pf pt (current_turn g) = Some (mm, b)"
        and fin: "(if mm
             then update_check_status (change_turn (g\<lparr>current_board := b\<rparr>)) \<bind> (\<lambda>g2. Some (True, g2))
             else Some (False, g\<lparr>current_board := b\<rparr>)) = Some (r, g')"
        by (auto simp: bind_eq_Some_conv)
      show thesis
      proof (cases mm)
        case True
        with fin have "update_check_status (change_turn (g\<lparr>current_board := b\<rparr>)) = Some g'" "r"
          by (auto simp: bind_eq_Some_conv)
        with p mp True show thesis by (intro made) simp_all
      next
        case False
        with fin have "g' = g\<lparr>current_board := b\<rparr>" "\<not> r" by auto
        with p mp False show thesis by (intro refused) simp_all
      qed
    qed
  qed
qed

lemma make_move_mono:
  assumes "make_move g f t = Some (r, g')" "checkmate (current_board g)"
  shows "checkmate (current_board g')"
  using assms(1)
proof (cases rule: make_move_cases)
  case rejected
  with assms(2) show ?thesis by simp
next
  case passed
  with assms(2) show ?thesis by (simp add: change_turn_board)
next
  case (refused pf pt b)
  with move_piece_checkmate[OF refused(3)] assms(2) show ?thesis by simp
next
  case (made pf pt b)
  from move_piece_checkmate[OF made(3)] assms(2)
  have "checkmate (current_board (change_turn (g\<lparr>current_board := b\<rparr>)))"
    by (simp add: change_turn_board)
  from update_check_status_mono[OF made(4) this] show ?thesis .
qed

lemma play_mono:
  "play g calls = Some g' \<Longrightarrow> checkmate (current_board g) \<Longrightarrow> checkmate (current_board g')"
proof (induction calls arbitrary: g)
  case Nil
  then show ?case by simp
next
  case (Cons call calls)
  obtain f t where call: "call = (f, t)" by (cases call)
  with Cons.prems(1) obtain r g1 where
    mm: "make_move g f t = Some (r, g1)" and rest: "play g1 calls = Some g'"
    by (auto simp: bind_eq_Some_conv)
  from Cons.IH[OF rest make_move_mono[OF mm Cons.prems(2)]] show ?case .
qed

section \<open>What every move keeps\<close>

text \<open>
  An accepted move writes the piece to the destination cell, empties the source cell, sets
  the recorded position of the piece and, for a General, the General location of the
  colour that moves; nothing else changes. The four properties of \<open>board_ok\<close> therefore
  hold on every board that calls of \<open>move_piece\<close> or \<open>make_move\<close> reach from the
  constructor's board.
\<close>

lemma map_of_map_values:
  "map_of (map (\<lambda>(k, v). (k, f v)) xs) k = map_option f (map_of xs k)"
  by (induction xs) auto

lemma map_fst_map_values:
  "map fst (map (\<lambda>(k, v). (k, f v)) xs) = map fst xs"
  by (induction xs) auto

lemma update_current_pos_board:
  "board (update_current_pos b p loc) =
     map (\<lambda>(r, row). (r, map (\<lambda>(c, item).
           (c, if item = Some p then Some (p\<lparr>current_pos := loc\<rparr>) else item)) row)) (board b)"
  by (simp add: update_current_pos_def)

lemma update_current_pos_contents:
  "get_location_contents (update_current_pos b p loc) k =
   map_option (\<lambda>item. if item = Some p then Some (p\<lparr>current_pos := loc\<rparr>) else item)
     (get_location_contents b k)"
proof (cases "map_of (board b) (fst k)")
  case None
  then show ?thesis
    unfolding get_location_contents_def update_current_pos_def
    by (simp add: map_of_map_values)
next
  case (Some row)
  then show ?thesis
    unfolding get_location_contents_def update_current_pos_def
    by (simp add: map_of_map_values)
qed

lemma rows_keep_keys:
  "list_all (\<lambda>(r, row). map fst row = A) grid \<Longrightarrow>
   list_all (\<lambda>(r, row). map fst row = A)
     (map (\<lambda>(r, row). (r, map (\<lambda>(c, item). (c, h item)) row)) grid)"
  by (induction grid) (auto simp: map_fst_map_values)

lemma update_current_pos_grid_ok:
  assumes "grid_ok b"
  shows "grid_ok (update_current_pos b p loc)"
proof -
  have k: "map fst (board (update_current_pos b p loc)) = map fst (board b)"
    unfolding update_current_pos_board by (rule map_fst_map_values)
  from assms have "list_all (\<lambda>(r, row). map fst row = alphabet) (board b)"
    by (simp add: grid_ok_def)
  then have r: "list_all (\<lambda>(r, row). map fst row = alphabet) (board (update_current_pos b p loc))"
    unfolding update_current_pos_board by (rule rows_keep_keys)
  from assms have "map fst (board b) = [1..10]" by (simp add: grid_ok_def)
  with k r show ?thesis unfolding grid_ok_def by simp
qed


lemma contents_ignores_general_locations:
  "get_location_contents (b\<lparr>general_locations := gl\<rparr>) k = get_location_contents b k"
  by (simp add: get_location_contents_def)

lemma grid_ok_ignores_general_locations:
  "grid_ok (b\<lparr>general_locations := gl\<rparr>) = grid_ok b"
  by (simp add: grid_ok_def)

lemma move_piece_made:
  assumes "grid_ok b" "pieces_ok b" "generals_on_board b" "in_sync b"
    and mp: "move_piece b f m t = Some (True, b')"
  shows "\<exists>p rng. get_location_contents b f = Some (Some p)
           \<and> get_movement_range p = Some rng \<and> legality_rules b m p t rng = Some True
           \<and> f \<noteq> m \<and> on_board f \<and> on_board m
           \<and> grid_ok b' \<and> checkmate b' = checkmate b
           \<and> general_locations b' =
               (if kind p = GENERAL then (general_locations b)(t := m) else general_locations b)
           \<and> (\<forall>k. get_location_contents b' k =
                  (if k = m then Some (Some (p\<lparr>current_pos := m\<rparr>))
                   else if k = f then Some None
                   else get_location_contents b k))"
proof -
  from mp obtain item where item: "get_location_contents b f = Some item"
    by (auto simp: move_piece_def bind_eq_Some_conv)
  with mp obtain p where c: "get_location_contents b f = Some (Some p)"
    by (cases item) (auto simp: move_piece_def)
  note s = cell_piece[OF assms(1,2,4) c]
  from mp c obtain legal b1 where
    plc: "pass_legality_check b m p t False = Some (legal, b1)"
    by (auto simp: move_piece_def bind_eq_Some_conv)
  from pass_legality_check_unchanged[OF assms(1-4) s(1) plc] have b1: "b1 = b" .
  from mp c plc have legal: "legal" by (cases legal) (auto simp: move_piece_def)
  from pass_legality_check_result[OF plc] legal b1 obtain rng where
    rng: "get_movement_range p = Some rng" "legality_rules b m p t rng = Some True" by auto
  from legality_rules_TrueD(2)[OF rng(2)] have m: "m \<in> set rng" .
  from piece_ok_range[OF s(4)] rng(1) m have obm: "on_board m" by auto
  from range_excludes_self[OF _ rng(1)] s(2,3) m have fm: "f \<noteq> m" by auto
  from set_location_ok[OF assms(1) obm, of "Some p"] obtain b2 where
    b2: "set_location b m (Some p) = Some b2" "grid_ok b2"
      "general_locations b2 = general_locations b" "checkmate b2 = checkmate b"
      "\<And>k. get_location_contents b2 k = (if k = m then Some (Some p) else get_location_contents b k)"
    by blast
  from set_location_ok[OF b2(2) s(3), of None] obtain b3 where
    b3: "set_location b2 f None = Some b3" "grid_ok b3"
      "general_locations b3 = general_locations b2" "checkmate b3 = checkmate b2"
      "\<And>k. get_location_contents b3 k = (if k = f then Some None else get_location_contents b2 k)"
    by blast
  define b4 where "b4 = update_current_pos b3 p m"
  from mp c plc legal b1 b2(1) b3(1)
  have b': "b' = (if kind p = GENERAL
                  then b4\<lparr>general_locations := (general_locations b4)(t := m)\<rparr> else b4)"
    by (auto simp: move_piece_def Let_def b4_def is_general_def)
  have g4: "grid_ok b4" unfolding b4_def by (rule update_current_pos_grid_ok[OF b3(2)])
  have f4: "checkmate b4 = checkmate b" "general_locations b4 = general_locations b"
    by (simp_all add: b4_def update_current_pos_fields b3 b2)
  have c4: "get_location_contents b4 k =
              (if k = m then Some (Some (p\<lparr>current_pos := m\<rparr>))
               else if k = f then Some None
               else get_location_contents b k)" for k
  proof (cases "k = m \<or> k = f")
    case True
    with fm show ?thesis
      by (auto simp: b4_def update_current_pos_contents b3(5) b2(5))
  next
    case False
    have "get_location_contents b k \<noteq> Some (Some p)"
    proof
      assume "get_location_contents b k = Some (Some p)"
      from cell_piece(2)[OF assms(1,2,4) this] s(2) False show False by simp
    qed
    with False show ?thesis
      by (cases "get_location_contents b k")
         (auto simp: b4_def update_current_pos_contents b3(5) b2(5))
  qed
  from b' g4 f4 c4 have
    "grid_ok b'" "checkmate b' = checkmate b"
    "general_locations b' =
       (if kind p = GENERAL then (general_locations b)(t := m) else general_locations b)"
    "\<forall>k. get_location_contents b' k =
              (if k = m then Some (Some (p\<lparr>current_pos := m\<rparr>))
               else if k = f then Some None
               else get_location_contents b k)"
    by (simp_all add: contents_ignores_general_locations grid_ok_ignores_general_locations)
  with c rng fm s(3) obm show ?thesis by blast
qed


lemma move_piece_keeps_invariants:
  assumes "grid_ok b" "pieces_ok b" "generals_on_board b" "in_sync b"
    and mp: "move_piece b f m t = Some (made, b')"
  shows "grid_ok b'" "pieces_ok b'" "generals_on_board b'" "in_sync b'"
proof -
  have "grid_ok b' \<and> pieces_ok b' \<and> generals_on_board b' \<and> in_sync b'"
  proof (cases made)
    case False
    with mp move_piece_False_same[OF assms(1-4), of f m t b'] assms(1-4) show ?thesis by simp
  next
    case True
    with mp have "move_piece b f m t = Some (True, b')" by simp
    from move_piece_made[OF assms(1-4) this] obtain p rng where
      c: "get_location_contents b f = Some (Some p)" and
      rng: "get_movement_range p = Some rng" "legality_rules b m p t rng = Some True" and
      sq: "f \<noteq> m" "on_board f" "on_board m" and
      g': "grid_ok b'" and
      gl: "general_locations b' =
             (if kind p = GENERAL then (general_locations b)(t := m) else general_locations b)" and
      cells: "\<And>k. get_location_contents b' k =
                (if k = m then Some (Some (p\<lparr>current_pos := m\<rparr>))
                 else if k = f then Some None
                 else get_location_contents b k)"
      by blast
    have moved: "piece_ok (p\<lparr>current_pos := m\<rparr>)"
      using sq(3) legality_rules_TrueD(4)[OF rng(2)] by (auto simp: piece_ok_def)
    have p': "pieces_ok b'"
    proof (rule pieces_okI[OF g'])
      fix k q assume q: "get_location_contents b' k = Some (Some q)"
      show "piece_ok q"
      proof (cases "k = m")
        case True
        with q cells[of k] moved show ?thesis by simp
      next
        case False
        with q cells[of k] have "get_location_contents b k = Some (Some q)"
          by (auto split: if_splits)
        from pieces_okD[OF assms(1,2) this] show ?thesis .
      qed
    qed
    have s': "in_sync b'"
    proof (rule in_syncI)
      fix k q assume q: "get_location_contents b' k = Some (Some q)"
      show "current_pos q = k"
      proof (cases "k = m")
        case True
        with q cells[of k] show ?thesis by auto
      next
        case False
        with q cells[of k] have "get_location_contents b k = Some (Some q)"
          by (auto split: if_splits)
        from in_syncD[OF assms(1,4) this] show ?thesis .
      qed
    qed
    have "on_board (general_locations b' c)" for c
      using gl sq(3) generals_on_board_color[OF assms(3), of c] by (auto split: if_splits)
    then have "generals_on_board b'" by (simp add: generals_on_board_def)
    with g' p' s' show ?thesis by simp
  qed
  then show "grid_ok b'" "pieces_ok b'" "generals_on_board b'" "in_sync b'" by simp_all
qed

lemma new_board_invariants:
  assumes "new_board = Some b"
  shows "grid_ok b" "pieces_ok b" "generals_on_board b" "in_sync b"
proof -
  from new_board_well_formed have "well_formed b" unfolding assms by simp
  from well_formed_parts[OF this]
  show "grid_ok b" "pieces_ok b" "generals_on_board b" "in_sync b" .
qed

lemma accepted_moves_keep_invariants:
  assumes "accepted_moves b calls = Some b'"
    and "grid_ok b" "pieces_ok b" "generals_on_board b" "in_sync b"
  shows "grid_ok b' \<and> pieces_ok b' \<and> generals_on_board b' \<and> in_sync b'"
  using assms
proof (induction b calls rule: accepted_moves.induct)
  case (1 b)
  then show ?case by simp
next
  case (2 b move_from move_to turn calls)
  from "2.prems"(1) obtain b1 where
    mp: "move_piece b move_from move_to turn = Some (True, b1)" and
    rest: "accepted_moves b1 calls = Some b'"
    by (auto simp: bind_eq_Some_conv split: if_splits)
  note inv = move_piece_keeps_invariants[OF "2.prems"(2-5) mp]
  from "2.IH"[OF mp refl _ rest inv] show ?case by simp
qed

lemma generals_trackedD:
  assumes "grid_ok b" "generals_tracked b"
    and "get_location_contents b k = Some (Some q)" "kind q = GENERAL"
  shows "general_locations b (color q) = k"
proof -
  from grid_ok_contents_on_board[OF assms(1,3)] have "k \<in> set (grid_keys b)"
    by (simp add: grid_keys_iff[OF assms(1)])
  with assms(2) have "case get_location_contents b k of
      Some (Some p) \<Rightarrow> (if kind p = GENERAL then general_locations b (color p) = k else True)
    | _ \<Rightarrow> True"
    unfolding generals_tracked_def list_all_iff by blast
  with assms(3,4) show ?thesis by simp
qed

lemma generals_trackedI:
  assumes "\<And>k q. get_location_contents b k = Some (Some q) \<Longrightarrow> kind q = GENERAL
             \<Longrightarrow> general_locations b (color q) = k"
  shows "generals_tracked b"
  unfolding generals_tracked_def list_all_iff using assms by (auto split: option.splits)

lemma general_atD:
  assumes "general_at b c"
  obtains g where "get_location_contents b (general_locations b c) = Some (Some g)"
    "kind g = GENERAL" "color g = c"
  using assms by (auto simp: general_at_def split: option.splits)

lemma move_piece_generals:
  assumes "grid_ok b" "pieces_ok b" "generals_on_board b" "in_sync b"
    and mp: "move_piece b f m t = Some (True, b')"
  shows "get_location_contents b f = Some (Some p) \<Longrightarrow> kind p = GENERAL \<Longrightarrow>
           general_locations b' t = m
           \<and> get_location_contents b' m = Some (Some (p\<lparr>current_pos := m\<rparr>))"
    and "generals_tracked b \<Longrightarrow> generals_tracked b'"
    and "general_at b c \<Longrightarrow> general_at b' c = (m \<noteq> general_locations b c)"
proof -
  from move_piece_made[OF assms(1-4) mp] obtain p0 rng where
    c: "get_location_contents b f = Some (Some p0)" and
    rng: "get_movement_range p0 = Some rng" "legality_rules b m p0 t rng = Some True" and
    sq: "f \<noteq> m" "on_board f" "on_board m" and
    gl: "general_locations b' =
           (if kind p0 = GENERAL then (general_locations b)(t := m) else general_locations b)" and
    cells: "\<And>k. get_location_contents b' k =
              (if k = m then Some (Some (p0\<lparr>current_pos := m\<rparr>))
               else if k = f then Some None
               else get_location_contents b k)"
    by blast
  note col = legality_rules_TrueD(1)[OF rng(2)]
  from legality_rules_TrueD(3)[OF rng(2)] obtain target where
    target: "get_location_contents b m = Some target"
      "\<And>q. target = Some q \<Longrightarrow> color q \<noteq> color p0" by blast
  show "general_locations b' t = m
        \<and> get_location_contents b' m = Some (Some (p\<lparr>current_pos := m\<rparr>))"
    if "get_location_contents b f = Some (Some p)" "kind p = GENERAL"
    using that c gl cells[of m] by simp
  show "generals_tracked b'" if tr: "generals_tracked b"
  proof (rule generals_trackedI)
    fix k q assume q: "get_location_contents b' k = Some (Some q)" and gq: "kind q = GENERAL"
    show "general_locations b' (color q) = k"
    proof (cases "k = m")
      case True
      with q cells[of k] have "q = p0\<lparr>current_pos := m\<rparr>" by simp
      with gq col gl True show ?thesis by simp
    next
      case False
      with q cells[of k] have kf: "k \<noteq> f" and old: "get_location_contents b k = Some (Some q)"
        by (auto split: if_splits)
      from generals_trackedD[OF assms(1) tr old gq] have k: "general_locations b (color q) = k" .
      show ?thesis
      proof (cases "kind p0 = GENERAL \<and> color q = t")
        case True
        with generals_trackedD[OF assms(1) tr c] col k kf show ?thesis by simp
      next
        case False
        with gl k show ?thesis by auto
      qed
    qed
  qed
  show "general_at b' c = (m \<noteq> general_locations b c)" if ga: "general_at b c"
  proof -
    from ga obtain g where
      g: "get_location_contents b (general_locations b c) = Some (Some g)"
        "kind g = GENERAL" "color g = c" by (rule general_atD)
    show ?thesis
    proof (cases "m = general_locations b c")
      case True
      with g target have ct: "c \<noteq> t" using col by auto
      with gl True have "general_locations b' c = m" by simp
      with cells[of m] col ct have "\<not> general_at b' c" by (simp add: general_at_def)
      with True show ?thesis by simp
    next
      case False
      show ?thesis
      proof (cases "kind p0 = GENERAL \<and> c = t")
        case True
        with gl have "general_locations b' c = m" by simp
        with cells[of m] True col have "general_at b' c" by (simp add: general_at_def)
        with False show ?thesis by simp
      next
        case nt: False
        with gl have loc: "general_locations b' c = general_locations b c" by auto
        have "general_locations b c \<noteq> f"
        proof
          assume "general_locations b c = f"
          with g c have "g = p0" by simp
          with g nt col show False by simp
        qed
        with cells[of "general_locations b c"] False loc g have "general_at b' c"
          by (simp add: general_at_def)
        with False show ?thesis by simp
      qed
    qed
  qed
qed


lemma board_okD:
  assumes "board_ok b"
  shows "grid_ok b" "pieces_ok b" "generals_on_board b" "in_sync b"
  using assms by (simp_all add: board_ok_def)

lemma board_ok_checkmate_flag: "board_ok (b\<lparr>checkmate := x\<rparr>) = board_ok b"
  by (simp add: board_ok_def grid_ok_def pieces_ok_def generals_on_board_def in_sync_def
      grid_items_def grid_keys_def get_location_contents_def)

lemma new_board_ok: "new_board = Some b \<Longrightarrow> board_ok b"
  using new_board_invariants[of b] by (simp add: board_ok_def)

lemma move_piece_board_ok:
  assumes "board_ok b" "move_piece b f m t = Some (made, b')"
  shows "board_ok b'"
  using move_piece_keeps_invariants[OF board_okD[OF assms(1)] assms(2)]
  by (simp add: board_ok_def)

lemma accepted_moves_board_ok:
  assumes "board_ok b" "accepted_moves b calls = Some b'"
  shows "board_ok b'"
  using accepted_moves_keep_invariants[OF assms(2) board_okD[OF assms(1)]]
  by (simp add: board_ok_def)

lemma checkmate_side_board_ok:
  assumes "board_ok b" "checkmate_side b general c = Some b'"
  shows "board_ok b'"
proof (cases general)
  case None
  with assms(2) show ?thesis
    by (auto simp: checkmate_side_def is_general_stuck_def)
next
  case (Some g)
  from can_friendly_break_check_returns[OF board_okD[OF assms(1)], of g]
  obtain cb where cb: "can_friendly_break_check b (Some g) = Some (cb, b)" by blast
  from assms(2) have "b' = b \<or> b' = b\<lparr>checkmate := True\<rparr>"
    unfolding checkmate_side_def Some
    by (auto simp: bind_eq_Some_conv cb split: if_splits)
  with assms(1) show ?thesis by (auto simp: board_ok_checkmate_flag)
qed

lemma update_checkmate_status_board_ok:
  assumes "board_ok b" "update_checkmate_status b = Some b'"
  shows "board_ok b'"
  using assms unfolding update_checkmate_status_def
  by (auto simp: bind_eq_Some_conv dest: checkmate_side_board_ok)

lemma in_check_branch_board_ok:
  assumes "board_ok (current_board g)" "in_check_branch g c = Some g'"
  shows "board_ok (current_board g')"
proof (cases "update_checkmate_status (current_board g)")
  case None
  with assms(2) show ?thesis by (simp add: in_check_branch_def)
next
  case (Some b)
  define g1 where "g1 = g\<lparr>is_in_check := (\<lambda>x. x = c), current_board := b\<rparr>"
  from assms(2) Some have "g' = (if checkmate b then declare_checkmate g1 c else g1)"
    by (auto simp: in_check_branch_def Let_def get_checkmate_status_def g1_def)
  then have "current_board g' = b"
    by (cases "checkmate b") (simp_all add: declare_checkmate_board g1_def)
  with update_checkmate_status_board_ok[OF assms(1) Some] show ?thesis by simp
qed

lemma update_check_status_board_ok:
  assumes "board_ok (current_board g)" "update_check_status g = Some g'"
  shows "board_ok (current_board g')"
proof -
  from assms(2) have "in_check_branch g RED = Some g' \<or> in_check_branch g BLUE = Some g'
      \<or> g' = g\<lparr>is_in_check := (\<lambda>c. False)\<rparr>"
    unfolding update_check_status_def
    by (auto simp: bind_eq_Some_conv split: if_splits)
  with assms(1) in_check_branch_board_ok[OF assms(1)] show ?thesis by auto
qed

lemma make_move_board_ok:
  assumes "board_ok (current_board g)" "make_move g f t = Some (r, g')"
  shows "board_ok (current_board g')"
  using assms(2)
proof (cases rule: make_move_cases)
  case rejected
  with assms(1) show ?thesis by simp
next
  case passed
  with assms(1) show ?thesis by (simp add: change_turn_board)
next
  case (refused pf pt b)
  with move_piece_board_ok[OF assms(1) refused(3)] show ?thesis by simp
next
  case (made pf pt b)
  from move_piece_board_ok[OF assms(1) made(3)]
  have "board_ok (current_board (change_turn (g\<lparr>current_board := b\<rparr>)))"
    by (simp add: change_turn_board)
  from update_check_status_board_ok[OF this made(4)] show ?thesis .
qed

lemma play_board_ok:
  "board_ok (current_board g) \<Longrightarrow> play g calls = Some g' \<Longrightarrow> board_ok (current_board g')"
proof (induction calls arbitrary: g)
  case Nil
  then show ?case by simp
next
  case (Cons call calls)
  obtain f t where call: "call = (f, t)" by (cases call)
  with Cons.prems(2) obtain r g1 where
    mm: "make_move g f t = Some (r, g1)" and rest: "play g1 calls = Some g'"
    by (auto simp: bind_eq_Some_conv)
  from Cons.IH[OF make_move_board_ok[OF Cons.prems(1) mm] rest] show ?case .
qed

lemma play_from_start_board_ok:
  assumes "play_from_start calls = Some g"
  shows "board_ok (current_board g)"
proof -
  from assms obtain g0 where g0: "new_game = Some g0" and p: "play g0 calls = Some g"
    by (auto simp: play_from_start_def bind_eq_Some_conv)
  from g0 obtain b where "new_board = Some b" "current_board g0 = b"
    by (auto simp: new_game_def bind_eq_Some_conv)
  with new_board_ok[of b] have "board_ok (current_board g0)" by simp
  from play_board_ok[OF this p] show ?thesis .
qed

lemma reached_piece_ok:
  assumes "play_from_start calls = Some g"
    and "get_location_contents (current_board g) k = Some (Some p)"
  shows "piece_ok p"
proof -
  from play_from_start_board_ok[OF assms(1)] have ok: "board_ok (current_board g)" .
  from pieces_okD[OF board_okD(1,2)[OF ok] assms(2)] show ?thesis .
qed


lemma new_board_flag: "case new_board of None \<Rightarrow> False | Some b \<Rightarrow> \<not> get_checkmate_status b"
  by code_simp

text \<open>
  C9. The constructor sets the checkmate flag to False; \<open>move_piece\<close> never changes it;
  \<open>update_checkmate_status\<close> never changes it from True to False; and once the flag of a
  game's board is True, it is True after any further sequence of \<open>make_move\<close> calls, so
  \<open>get_checkmate_status\<close> never returns False again.
\<close>

theorem C9_checkmate_flag_monotonic:
  "(case new_board of None \<Rightarrow> False | Some b0 \<Rightarrow> \<not> get_checkmate_status b0)
   \<and> (move_piece b move_from move_to turn = Some (made, b') \<longrightarrow>
        get_checkmate_status b' = get_checkmate_status b)
   \<and> (update_checkmate_status b = Some b' \<longrightarrow> get_checkmate_status b \<longrightarrow> get_checkmate_status b')
   \<and> (play g calls = Some g' \<longrightarrow> get_checkmate_status (current_board g)
        \<longrightarrow> get_checkmate_status (current_board g'))"
  using new_board_flag move_piece_checkmate[of b move_from move_to turn made b']
    update_checkmate_status_mono[of b b'] play_mono[of g calls g']
  by (auto simp: get_checkmate_status_def)

theorem C9_checkmate_flag_monotonic_witness:
  "case mate_position of None \<Rightarrow> False
   | Some b \<Rightarrow>
       (case update_checkmate_status b of None \<Rightarrow> False
        | Some b1 \<Rightarrow> get_checkmate_status b1 \<and>
            (case update_checkmate_status b1 of None \<Rightarrow> False
             | Some b2 \<Rightarrow> get_checkmate_status b2))"
proof -
  have "case mate_position of None \<Rightarrow> False
        | Some b \<Rightarrow>
            (case update_checkmate_status b of None \<Rightarrow> False
             | Some b1 \<Rightarrow> get_checkmate_status b1 \<and>
                 (case update_checkmate_status b1 of None \<Rightarrow> False | Some b2 \<Rightarrow> True))"
    by code_simp
  then obtain b b1 b2 where run: "mate_position = Some b" "update_checkmate_status b = Some b1"
    "get_checkmate_status b1" "update_checkmate_status b1 = Some b2"
    by (auto split: option.splits)
  from C9_checkmate_flag_monotonic[of b1 "(1, CHR ''a'')" "(1, CHR ''a'')" RED False b2 undefined "[]" undefined]
    run(3,4)
  have "get_checkmate_status b2" by simp
  then show ?thesis by (simp add: run)
qed

section \<open>Passing a turn\<close>

lemma lower_alphabet: "c \<in> set alphabet \<Longrightarrow> lower c = c"
  by (auto simp: alphabet_def lower_def)

lemma row_string_parse:
  assumes "r \<in> set row_strings"
  shows "(length r = 1 \<or> r = ''10'') \<and> (\<exists>n. py_int r = Some n \<and> 1 \<le> n \<and> n \<le> 10)"
  using assms
  by (auto simp: row_strings_def py_int_def is_space_def is_digit_def digit_val_def)

lemma coordinate_string_valid:
  assumes "s \<in> set coordinate_strings"
  shows "input_rejected s s = Some False \<and> (\<exists>k. parse_coordinate s = Some k \<and> on_board k)"
proof -
  from assms obtain c r where s: "s = c # r" and c: "c \<in> set alphabet" and r: "r \<in> set row_strings"
    by (auto simp: coordinate_strings_def)
  from row_string_parse[OF r] obtain n where len: "length r = 1 \<or> r = ''10''"
    and n: "py_int r = Some n" "1 \<le> n" "n \<le> 10" by blast
  from c have low: "lower c \<in> set ''abcdefghi''"
    by (simp add: lower_alphabet) (simp add: alphabet_def)
  from len have "input_rejected s s = Some False"
    using low by (auto simp: input_rejected_def str_at_def s)
  moreover from n c have "parse_coordinate s = Some (n, c) \<and> on_board (n, c)"
    by (simp add: parse_coordinate_def str_at_def s on_board_def)
  ultimately show ?thesis by blast
qed


lemma make_move_pass:
  assumes "input_rejected s s = Some False" "get_game_state g = UNFINISHED"
    and "\<not> is_in_check g (current_turn g)"
  shows "make_move g s s = Some (True, change_turn g)"
  using assms by (simp add: make_move_def)

lemma move_piece_same_square:
  assumes "well_formed b" "on_board k"
  shows "move_piece b k k t = Some (False, b)"
proof -
  note w = well_formed_parts[OF assms(1)]
  from move_piece_returns[OF assms(1,2,2), of t] obtain r b' where
    mp: "move_piece b k k t = Some (r, b')" and
    iff: "(r = False) = (get_location_contents b k = Some None \<or>
              (\<exists>p. get_location_contents b k = Some (Some p) \<and>
                   pass_legality_check b k p t False = Some (False, b)))" by blast
  have "\<not> r"
  proof
    assume r
    from grid_ok_contents_Some[OF w(1) assms(2)] obtain item
      where item: "get_location_contents b k = Some item" by blast
    with \<open>r\<close> iff obtain p where p: "get_location_contents b k = Some (Some p)"
      by (cases item) auto
    note s = contents_stands_on[OF assms(1) p]
    from pass_legality_check_returns[OF w s(1) assms(2) well_formed_general_at[OF assms(1)], of t]
    obtain legal where legal: "pass_legality_check b k p t False = Some (legal, b)" by blast
    with \<open>r\<close> iff p have "legal" by (cases legal) auto
    with pass_legality_check_result[OF legal] obtain rng where
      rng: "get_movement_range p = Some rng" "legality_rules b k p t rng = Some True" by auto
    from legality_rules_TrueD(2)[OF rng(2)] have "k \<in> set rng" .
    moreover from range_excludes_self[OF _ rng(1)] s(2,3) have "k \<notin> set rng" by simp
    ultimately show False by simp
  qed
  with mp move_piece_False_unchanged[OF assms(1), of k k t b'] show ?thesis by simp
qed

lemma make_move_pass_in_check:
  assumes "s \<in> set coordinate_strings" "get_game_state g = UNFINISHED"
    and "is_in_check g (current_turn g)" "well_formed (current_board g)"
  shows "make_move g s s = Some (False, g)"
proof -
  from coordinate_string_valid[OF assms(1)] obtain k where
    v: "input_rejected s s = Some False" "parse_coordinate s = Some k" "on_board k" by blast
  from move_piece_same_square[OF assms(4) v(3), of "current_turn g"] v(1,2) assms(2,3)
  show ?thesis by (simp add: make_move_def)
qed

lemma new_game_fields:
  "\<exists>g. new_game = Some g \<and> get_game_state g = UNFINISHED \<and> current_turn g = BLUE
       \<and> \<not> is_in_check g BLUE \<and> \<not> is_in_check g RED"
proof -
  from case_optionD[OF new_board_well_formed] obtain b where b: "new_board = Some b" by blast
  show ?thesis unfolding new_game_def b by (simp add: get_game_state_def)
qed

lemma e9_coordinate: "''e9'' \<in> set coordinate_strings"
  by (simp add: coordinate_strings_def row_strings_def alphabet_def)

lemma pass_follows_flag:
  assumes "s \<in> set coordinate_strings" "get_game_state g = UNFINISHED"
  shows "(\<not> is_in_check g (current_turn g) \<longrightarrow>
            make_move g s s = Some (True, change_turn g)
            \<and> current_board (change_turn g) = current_board g
            \<and> get_current_turn (change_turn g) = (if current_turn g = BLUE then RED else BLUE))
       \<and> (is_in_check g (current_turn g) \<and> well_formed (current_board g) \<longrightarrow>
            make_move g s s = Some (False, g))
       \<and> (\<exists>g0. new_game = Some g0 \<and> make_move g0 ''e9'' ''e9'' = Some (True, g0\<lparr>current_turn := RED\<rparr>))"
proof -
  from coordinate_string_valid[OF assms(1)] have v: "input_rejected s s = Some False" by blast
  have pass: "\<not> is_in_check g (current_turn g) \<Longrightarrow> make_move g s s = Some (True, change_turn g)"
    using make_move_pass[OF v assms(2)] .
  have turn: "get_current_turn (change_turn g) = (if current_turn g = BLUE then RED else BLUE)"
    by (cases "current_turn g") (simp_all add: change_turn_def get_current_turn_def)
  from new_game_fields obtain g0 where g0: "new_game = Some g0" "get_game_state g0 = UNFINISHED"
    "current_turn g0 = BLUE" "\<not> is_in_check g0 BLUE"
    by blast
  from coordinate_string_valid[OF e9_coordinate] have "input_rejected ''e9'' ''e9'' = Some False"
    by blast
  from make_move_pass[OF this g0(2)] g0(3,4)
  have "make_move g0 ''e9'' ''e9'' = Some (True, g0\<lparr>current_turn := RED\<rparr>)"
    by (simp add: change_turn_def)
  with g0(1) have fresh: "\<exists>g0. new_game = Some g0 \<and>
      make_move g0 ''e9'' ''e9'' = Some (True, g0\<lparr>current_turn := RED\<rparr>)" by blast
  from pass turn make_move_pass_in_check[OF assms] fresh show ?thesis
    by (simp add: change_turn_board)
qed

text \<open>
  C8. Claimed: a pass (source string equal to destination string) is accepted while the
  current player is not in check, and passing while in check is rejected. \<open>make_move\<close>
  tests the flag of the current player in \<open>_is_in_check\<close>, and \<open>update_check_status\<close> sets
  the flag of RED alone when both Generals are attacked. The six calls of
  \<open>double_check_game\<close> on a fresh game all return True and leave the game unfinished, the
  board well formed, BLUE to move, both Generals attacked and only RED's flag set; then
  \<open>make_move("e9", "e9")\<close> returns True and hands the turn to RED with the board untouched:
  BLUE has passed while its General is in check, against the comment in \<open>make_move\<close>
  ("this allows user to 'pass' a turn so long as their general is not in check").
\<close>

theorem C8_pass_accepted_in_check:
  "case new_game of None \<Rightarrow> False
   | Some g0 \<Rightarrow>
       answers g0 double_check_game = Some [True, True, True, True, True, True]
       \<and> (case play g0 double_check_game of None \<Rightarrow> False
          | Some g \<Rightarrow>
              get_game_state g = UNFINISHED \<and> get_current_turn g = BLUE
              \<and> well_formed (current_board g)
              \<and> get_general_check_status (current_board g) RED = Some True
              \<and> get_general_check_status (current_board g) BLUE = Some True
              \<and> is_in_check g RED \<and> \<not> is_in_check g BLUE
              \<and> make_move g ''e9'' ''e9'' = Some (True, g\<lparr>current_turn := RED\<rparr>))"
proof -
  have "case new_game of None \<Rightarrow> False
        | Some g0 \<Rightarrow>
            answers g0 double_check_game = Some [True, True, True, True, True, True]
            \<and> (case play g0 double_check_game of None \<Rightarrow> False
               | Some g \<Rightarrow>
                   get_game_state g = UNFINISHED \<and> get_current_turn g = BLUE
                   \<and> well_formed (current_board g)
                   \<and> get_general_check_status (current_board g) RED = Some True
                   \<and> get_general_check_status (current_board g) BLUE = Some True
                   \<and> is_in_check g RED \<and> \<not> is_in_check g BLUE)"
    by code_simp
  from case_optionD[OF this] obtain g0 where g0: "new_game = Some g0"
    and a: "answers g0 double_check_game = Some [True, True, True, True, True, True]"
    and p: "case play g0 double_check_game of None \<Rightarrow> False
            | Some g \<Rightarrow>
                get_game_state g = UNFINISHED \<and> get_current_turn g = BLUE
                \<and> well_formed (current_board g)
                \<and> get_general_check_status (current_board g) RED = Some True
                \<and> get_general_check_status (current_board g) BLUE = Some True
                \<and> is_in_check g RED \<and> \<not> is_in_check g BLUE"
    by blast
  from case_optionD[OF p] obtain g where g: "play g0 double_check_game = Some g"
    and f: "get_game_state g = UNFINISHED" "get_current_turn g = BLUE"
      "well_formed (current_board g)"
      "get_general_check_status (current_board g) RED = Some True"
      "get_general_check_status (current_board g) BLUE = Some True"
      "is_in_check g RED" "\<not> is_in_check g BLUE"
    by blast
  from coordinate_string_valid[OF e9_coordinate] have "input_rejected ''e9'' ''e9'' = Some False"
    by blast
  from make_move_pass[OF this f(1)] f(2,7)
  have "make_move g ''e9'' ''e9'' = Some (True, g\<lparr>current_turn := RED\<rparr>)"
    by (simp add: change_turn_def get_current_turn_def)
  with f have "get_game_state g = UNFINISHED \<and> get_current_turn g = BLUE
              \<and> well_formed (current_board g)
              \<and> get_general_check_status (current_board g) RED = Some True
              \<and> get_general_check_status (current_board g) BLUE = Some True
              \<and> is_in_check g RED \<and> \<not> is_in_check g BLUE
              \<and> make_move g ''e9'' ''e9'' = Some (True, g\<lparr>current_turn := RED\<rparr>)"
    by simp
  with a show ?thesis unfolding g0 by (simp add: g)
qed

section \<open>Malformed input\<close>

text \<open>
  C2 fails on the code: \<open>make_move\<close> raises IndexError on an empty source string (from
  \<open>move_from[0]\<close>, before any validation); on a fresh game it raises KeyError for
  \<open>make_move("a0", "a1")\<close> and \<open>make_move("A1", "A2")\<close> (both strings pass the validation
  and reach \<open>self._board[0]\<close> and \<open>self._board[1]['A']\<close>) and ValueError for
  \<open>make_move("ab", "a1")\<close> (from \<open>int("b")\<close>); and it accepts the malformed
  \<open>make_move("a0", "a0")\<close> as a pass, returning True.
\<close>

theorem C2_make_move_raises:
  "make_move g [] move_to = None
   \<and> (case new_game of None \<Rightarrow> False
      | Some g0 \<Rightarrow> make_move g0 ''a0'' ''a1'' = None \<and> make_move g0 ''A1'' ''A2'' = None
          \<and> make_move g0 ''ab'' ''a1'' = None
          \<and> make_move g0 ''a0'' ''a0'' = Some (True, change_turn g0))"
proof -
  have 1: "make_move g [] move_to = None"
    by (simp add: make_move_def input_rejected_def str_at_def)
  have "case new_game of None \<Rightarrow> False
      | Some g0 \<Rightarrow> (case make_move g0 ''a0'' ''a1'' of None \<Rightarrow> True | Some x \<Rightarrow> False)
          \<and> (case make_move g0 ''A1'' ''A2'' of None \<Rightarrow> True | Some x \<Rightarrow> False)
          \<and> (case make_move g0 ''ab'' ''a1'' of None \<Rightarrow> True | Some x \<Rightarrow> False)"
    by code_simp
  from case_optionD[OF this] obtain g0 where g0: "new_game = Some g0"
    and raises: "make_move g0 ''a0'' ''a1'' = None" "make_move g0 ''A1'' ''A2'' = None"
      "make_move g0 ''ab'' ''a1'' = None"
    unfolding case_None_iff by blast
  from new_game_fields obtain g1 where g1: "new_game = Some g1" "get_game_state g1 = UNFINISHED"
    "current_turn g1 = BLUE" "\<not> is_in_check g1 BLUE" by blast
  from g1(1) have same: "g1 = g0" unfolding g0 by simp
  have "input_rejected ''a0'' ''a0'' = Some False"
    by (simp add: input_rejected_def str_at_def lower_def)
  from make_move_pass[OF this g1(2)] g1(3,4) same
  have pass: "make_move g0 ''a0'' ''a0'' = Some (True, change_turn g0)" by simp
  from 1 raises pass show ?thesis unfolding g0 by simp
qed

section \<open>Moves that expose the mover's own General\<close>

lemma check_filter_not_in_check:
  assumes "get_general_check_status b t = Some False"
  shows "check_filter b m p t general = Some (False, b)"
  using assms by (simp add: check_filter_def Let_def)

lemma pass_legality_check_not_in_check:
  assumes "get_general_check_status b t = Some False"
  shows "pass_legality_check b m p t False = pass_legality_check b m p t True"
  unfolding pass_legality_check_def
  by (simp add: check_filter_not_in_check[OF assms])

text \<open>
  C10. When \<open>get_general_check_status\<close> answers False for the player to move,
  \<open>pass_legality_check\<close> of a real move is the hypothetical check: the check filter rejects
  nothing and no simulation is run. And there is a board reached from a fresh game by
  \<open>make_move\<close> calls (BLUE passes twice while RED plays c1-d3 and b3-e3) with BLUE to move
  and not in check, on which \<open>move_piece\<close> returns True for BLUE's Soldier step e7-d7 and
  \<open>get_general_check_status\<close> answers True for BLUE on the board it leaves.
\<close>

theorem C10_self_check_is_accepted:
  "(get_general_check_status b turn = Some False \<longrightarrow>
      pass_legality_check b move_to p turn False = pass_legality_check b move_to p turn True)
   \<and> (case play_from_start exposing_game of None \<Rightarrow> False
      | Some g \<Rightarrow> current_turn g = BLUE \<and> get_game_state g = UNFINISHED
          \<and> get_general_check_status (current_board g) BLUE = Some False
          \<and> (case move_piece (current_board g) (7, CHR ''e'') (7, CHR ''d'') BLUE of
                None \<Rightarrow> False
              | Some (made, b') \<Rightarrow> made \<and> get_general_check_status b' BLUE = Some True))"
proof -
  have "case play_from_start exposing_game of None \<Rightarrow> False
      | Some g \<Rightarrow> current_turn g = BLUE \<and> get_game_state g = UNFINISHED
          \<and> get_general_check_status (current_board g) BLUE = Some False
          \<and> (case move_piece (current_board g) (7, CHR ''e'') (7, CHR ''d'') BLUE of
                None \<Rightarrow> False
              | Some (made, b') \<Rightarrow> made \<and> get_general_check_status b' BLUE = Some True)"
    by code_simp
  with pass_legality_check_not_in_check[of b turn move_to p] show ?thesis by blast
qed

theorem C10_self_check_is_accepted_witness:
  "case play_from_start exposing_game of None \<Rightarrow> False
   | Some g \<Rightarrow>
       pass_legality_check (current_board g) (7, CHR ''d'')
         \<lparr>kind = SOLDIER, color = BLUE, current_pos = (7, CHR ''e'')\<rparr> BLUE False
       = pass_legality_check (current_board g) (7, CHR ''d'')
         \<lparr>kind = SOLDIER, color = BLUE, current_pos = (7, CHR ''e'')\<rparr> BLUE True"
proof -
  have "case play_from_start exposing_game of None \<Rightarrow> False
      | Some g \<Rightarrow> get_general_check_status (current_board g) BLUE = Some False"
    by code_simp
  from case_optionD[OF this] obtain g where g: "play_from_start exposing_game = Some g"
    "get_general_check_status (current_board g) BLUE = Some False" by blast
  from C10_self_check_is_accepted[of "current_board g" BLUE "(7, CHR ''d'')"
      "\<lparr>kind = SOLDIER, color = BLUE, current_pos = (7, CHR ''e'')\<rparr>"] g(2)
  show ?thesis unfolding g(1) by simp
qed

section \<open>When the General is stuck\<close>

lemma legal_moves_set:
  "legal_moves b item t moves = Some ls \<Longrightarrow>
   set ls = {l \<in> set moves. pass_legality_check_hypothetical b l item t = Some True}"
proof (induction moves arbitrary: ls)
  case Nil
  then show ?case by simp
next
  case (Cons m moves)
  from Cons.prems obtain legal more where
    l: "pass_legality_check_hypothetical b m item t = Some legal"
    and more: "legal_moves b item t moves = Some more"
    and ls: "ls = (if legal then [m] else []) @ more"
    by (auto simp: bind_eq_Some_conv)
  from Cons.IH[OF more] l ls show ?case by (cases legal) auto
qed

lemma stuck_check_zone_set:
  "stuck_check_zone b c items = Some zone \<Longrightarrow>
   (l \<in> set zone) =
   (\<exists>item \<in> set items. case item of None \<Rightarrow> False
      | Some it \<Rightarrow> color it = c
          \<and> (case get_movement_range it of None \<Rightarrow> False | Some r \<Rightarrow> l \<in> set r)
          \<and> pass_legality_check_hypothetical b l it c = Some True)"
proof (induction items arbitrary: zone)
  case Nil
  then show ?case by simp
next
  case (Cons item items)
  show ?case
  proof (cases item)
    case None
    with Cons show ?thesis by simp
  next
    case (Some it)
    show ?thesis
    proof (cases "color it = c")
      case False
      with Some Cons show ?thesis by simp
    next
      case True
      with Some Cons.prems obtain r z more where
        r: "get_movement_range it = Some r" and z: "legal_moves b it c r = Some z"
        and more: "stuck_check_zone b c items = Some more" and zone: "zone = z @ more"
        by (auto simp: bind_eq_Some_conv)
      from legal_moves_set[OF z] Cons.IH[OF more] True Some r zone show ?thesis by auto
    qed
  qed
qed

lemma escape_options_empty:
  "escape_options b g zone opts = Some es \<Longrightarrow>
   (es = []) = (\<forall>option \<in> set opts. option \<in> set zone
                  \<or> pass_legality_check_hypothetical b option g (color g) = Some False)"
proof (induction opts arbitrary: es)
  case Nil
  then show ?case by simp
next
  case (Cons m opts)
  show ?case
  proof (cases "m \<in> set zone")
    case True
    with Cons show ?thesis by simp
  next
    case False
    with Cons.prems obtain legal more where
      l: "pass_legality_check_hypothetical b m g (color g) = Some legal"
      and more: "escape_options b g zone opts = Some more"
      and es: "es = (if legal then [m] else []) @ more"
      by (auto simp: bind_eq_Some_conv)
    from Cons.IH[OF more] l es False show ?thesis by (cases legal) auto
  qed
qed

lemma is_general_stuck_characterised:
  assumes "is_general_stuck b (Some g) c = Some stuck"
  shows "\<exists>rng. get_movement_range g = Some rng \<and>
           stuck = (\<forall>option \<in> set rng. legally_threatened b c option
                      \<or> pass_legality_check_hypothetical b option g (color g) = Some False)"
proof -
  from assms obtain rng zone es where
    rng: "get_movement_range g = Some rng"
    and zone: "stuck_check_zone b c (grid_items b) = Some zone"
    and es: "escape_options b g zone rng = Some es" and stuck: "stuck = (length es = 0)"
    by (auto simp: is_general_stuck_def bind_eq_Some_conv)
  have "(l \<in> set zone) = legally_threatened b c l" for l
    unfolding legally_threatened_def by (rule stuck_check_zone_set[OF zone])
  with escape_options_empty[OF es] stuck rng show ?thesis by simp
qed

text \<open>
  C4 (amended). On every well-formed board and for every General recording a palace
  square, \<open>is_general_stuck(general, enemyColor)\<close> returns, and it returns True iff every
  destination in the General's movement range is either legally threatened by the enemy
  (it lies in the range of an enemy piece and the hypothetical legality check accepts that
  piece's move to it) or fails the hypothetical legality check for the General.
\<close>

theorem C4_stuck_uses_filtered_zone:
  assumes "well_formed b" "piece_ok general"
  shows "\<exists>rng. get_movement_range general = Some rng \<and>
           is_general_stuck b (Some general) enemy_color =
           Some (\<forall>option \<in> set rng. legally_threatened b enemy_color option
                   \<or> pass_legality_check_hypothetical b option general (color general) = Some False)"
proof -
  note w = well_formed_parts[OF assms(1)]
  from is_general_stuck_returns[OF w(1,2,3) assms(2), of enemy_color]
  obtain stuck where s: "is_general_stuck b (Some general) enemy_color = Some stuck"
    by (rule not_NoneE)
  from is_general_stuck_characterised[OF s] s show ?thesis by auto
qed

theorem C4_stuck_uses_filtered_zone_witness:
  "case blocked_rooks_position of None \<Rightarrow> False
   | Some b \<Rightarrow>
       (\<exists>rng. get_movement_range \<lparr>kind = GENERAL, color = BLUE, current_pos = (9, CHR ''e'')\<rparr>
               = Some rng \<and>
          is_general_stuck b (Some \<lparr>kind = GENERAL, color = BLUE, current_pos = (9, CHR ''e'')\<rparr>) RED =
          Some (\<forall>option \<in> set rng. legally_threatened b RED option
                  \<or> pass_legality_check_hypothetical b option
                       \<lparr>kind = GENERAL, color = BLUE, current_pos = (9, CHR ''e'')\<rparr> BLUE = Some False))"
proof -
  have "case blocked_rooks_position of None \<Rightarrow> False
        | Some b \<Rightarrow> well_formed b
            \<and> piece_ok \<lparr>kind = GENERAL, color = BLUE, current_pos = (9, CHR ''e'')\<rparr>"
    by code_simp
  from case_optionD[OF this] obtain b where b: "blocked_rooks_position = Some b" "well_formed b"
    "piece_ok \<lparr>kind = GENERAL, color = BLUE, current_pos = (9, CHR ''e'')\<rparr>" by blast
  from C4_stuck_uses_filtered_zone[OF b(2,3), of RED] show ?thesis unfolding b(1) by simp
qed

text \<open>
  C4 as stated fails. With BLUE's General on (9, 'e'), RED Chariots on (8, 'a') and
  (10, 'a') each shut in by a RED Soldier beside it, and a RED Cannon on (9, 'a'), every
  step of the General lies in the raw movement range of a RED piece, so the stated
  condition holds; \<open>is_general_stuck\<close> nevertheless returns False, because its check zone
  keeps only the locations that pass the hypothetical legality check.
\<close>

theorem C4_unfiltered_zone_counterexample:
  "case blocked_rooks_position of None \<Rightarrow> False
   | Some b \<Rightarrow>
       stuck_as_specified b \<lparr>kind = GENERAL, color = BLUE, current_pos = (9, CHR ''e'')\<rparr> RED
       \<and> is_general_stuck b (Some \<lparr>kind = GENERAL, color = BLUE, current_pos = (9, CHR ''e'')\<rparr>) RED
           = Some False"
  by code_simp

section \<open>The General locations\<close>

text \<open>
  C7 (amended). On every board with the properties that moves keep, after a call of
  \<open>move_piece\<close> that returns True: when the piece that moved is a General, the General
  location of the colour that moved is the destination, and the destination cell holds
  that General; if every General on the grid stood on the square recorded for its colour
  before the call, so it is after it; and an entry of the General locations that pointed
  at the General of its colour before the call does so after it exactly when the move did
  not land on that General.
\<close>

theorem C7_general_locations_follow_generals:
  assumes "grid_ok b" "pieces_ok b" "generals_on_board b" "in_sync b"
    and "move_piece b move_from move_to turn = Some (True, b')"
  shows "(\<forall>p. get_location_contents b move_from = Some (Some p) \<and> kind p = GENERAL \<longrightarrow>
            general_locations b' turn = move_to
            \<and> get_location_contents b' move_to = Some (Some (p\<lparr>current_pos := move_to\<rparr>)))
       \<and> (generals_tracked b \<longrightarrow> generals_tracked b')
       \<and> (\<forall>c. general_at b c \<longrightarrow> general_at b' c = (move_to \<noteq> general_locations b c))"
  using move_piece_generals[OF assms] by blast

theorem C7_general_locations_follow_generals_witness:
  "case new_board of None \<Rightarrow> False
   | Some b \<Rightarrow>
       (case move_piece b (9, CHR ''e'') (8, CHR ''e'') BLUE of
          Some (True, b') \<Rightarrow>
            general_locations b' BLUE = (8, CHR ''e'')
            \<and> get_location_contents b' (8, CHR ''e'')
                = Some (Some \<lparr>kind = GENERAL, color = BLUE, current_pos = (8, CHR ''e'')\<rparr>)
            \<and> generals_tracked b' \<and> general_at b' BLUE \<and> general_at b' RED
        | _ \<Rightarrow> False)"
proof -
  let ?g = "\<lparr>kind = GENERAL, color = BLUE, current_pos = (9, CHR ''e'')\<rparr>"
  have "case new_board of None \<Rightarrow> False
        | Some b \<Rightarrow>
            well_formed b \<and> generals_tracked b
            \<and> get_location_contents b (9, CHR ''e'') = Some (Some ?g)
            \<and> general_locations b BLUE = (9, CHR ''e'')
            \<and> general_locations b RED = (2, CHR ''e'')
            \<and> (case move_piece b (9, CHR ''e'') (8, CHR ''e'') BLUE of
                  Some (True, b') \<Rightarrow> True | _ \<Rightarrow> False)"
    by code_simp
  from case_optionD[OF this] obtain b where b: "new_board = Some b"
    and w: "well_formed b" and tr: "generals_tracked b"
    and c: "get_location_contents b (9, CHR ''e'') = Some (Some ?g)"
    and gl: "general_locations b BLUE = (9, CHR ''e'')" "general_locations b RED = (2, CHR ''e'')"
    and m: "case move_piece b (9, CHR ''e'') (8, CHR ''e'') BLUE of
              Some (True, b') \<Rightarrow> True | _ \<Rightarrow> False"
    by blast
  from m obtain b' where mp: "move_piece b (9, CHR ''e'') (8, CHR ''e'') BLUE = Some (True, b')"
    by (auto split: option.splits bool.splits prod.splits)
  from w have ga: "general_at b BLUE" "general_at b RED" by (simp_all add: well_formed_def)
  from C7_general_locations_follow_generals[OF well_formed_parts[OF w] mp] c tr ga gl
  have "general_locations b' BLUE = (8, CHR ''e'')
        \<and> get_location_contents b' (8, CHR ''e'')
            = Some (Some \<lparr>kind = GENERAL, color = BLUE, current_pos = (8, CHR ''e'')\<rparr>)
        \<and> generals_tracked b' \<and> general_at b' BLUE \<and> general_at b' RED"
    by auto
  then show ?thesis unfolding b by (simp add: mp)
qed

text \<open>
  C7 as stated fails. After the calls of \<open>exposed_game\<close> the board is well formed and RED is
  to move; \<open>move_piece\<close> accepts RED's Cannon from (3, 'e') onto BLUE's General on (9, 'e'),
  and on the board it leaves the General location of BLUE is still (9, 'e'), a square that
  holds RED's Cannon, not BLUE's General. \<open>make_move("e3", "e9")\<close> returns True on that
  game and leaves it unfinished.
\<close>

theorem C7_taken_general_counterexample:
  "case play_from_start exposed_game of None \<Rightarrow> False
   | Some g \<Rightarrow>
       get_current_turn g = RED \<and> well_formed (current_board g)
       \<and> (case move_piece (current_board g) (3, CHR ''e'') (9, CHR ''e'') RED of
             Some (True, b') \<Rightarrow>
               general_locations b' BLUE = (9, CHR ''e'')
               \<and> get_location_contents b' (9, CHR ''e'')
                   = Some (Some \<lparr>kind = CANNON, color = RED, current_pos = (9, CHR ''e'')\<rparr>)
               \<and> \<not> general_at b' BLUE
           | _ \<Rightarrow> False)
       \<and> (case make_move g ''e3'' ''e9'' of
             Some (True, g') \<Rightarrow>
               get_game_state g' = UNFINISHED \<and> \<not> general_at (current_board g') BLUE
           | _ \<Rightarrow> False)"
  by code_simp

end
